theory Spec2Isabelle
  imports Main "HOL-Library.Word"
begin

unbundle bit_operations_syntax

section \<open>Data model\<close>

text \<open>
  A Node \<open>Buffer\<close> is a list of bytes. JavaScript numbers that hold the 16-bit channel
  readings, their sum (below \<open>2 ^ 18\<close>) and the checksum byte are natural numbers.
\<close>

type_synonym byte = "8 word"
type_synonym buffer = "byte list"

datatype js_error = TypeError string | RangeError | Error string

text \<open>The three \<open>new Error(...)\<close> values built by the session.\<close>

definition ChecksumMismatch :: js_error where
  "ChecksumMismatch = Error ''Checksum code does not match the calculated code''"

definition NotOpen :: js_error where
  "NotOpen = Error ''The device must be opened before''"

definition NotConnected :: js_error where
  "NotConnected = Error ''Device not connected''"

text \<open>The events a session emits, with their payload.\<close>

datatype event =
    EOpen | EClose | EStart | EStop | EDisconnected
  | EData "nat list" | ERawData buffer | EError js_error

text \<open>
  Everything a session does that is visible outside of it, in the order in which it
  happens: an event delivered by \<open>emit\<close>, an invocation of the caller's completion
  callback with its argument (\<open>None\<close> when it is called without one), the calls into the
  usb transport, and an exception that leaves a call or a handler of the session without
  being caught there.
\<close>

datatype action =
    Emit event
  | Callback "js_error option"
  | Acquire
  | ControlTransfer nat nat nat nat
  | ReleaseData | ReleaseCtl | DeviceClose
  | Uncaught js_error

record descriptor =
  idVendor :: nat
  idProduct :: nat

text \<open>A device object of the usb library; \<open>deviceDescriptor\<close> may be missing.\<close>

record usb_device =
  busNumber :: nat
  deviceAddress :: nat
  deviceDescriptor :: "descriptor option"

text \<open>
  The fields of a \<open>PenDaq\<close> object that the session logic reads and writes
  (\<open>_device\<close>, \<open>_isOpen\<close>, \<open>_isRunning\<close>, \<open>_isConnected\<close>), whether the event
  emitter that the object inherits has a listener for \<open>error\<close> events, and the trace
  of the visible actions of the session.
\<close>

record PenDaq =
  device :: usb_device
  isOpen :: bool
  isRunning :: bool
  isConnected :: bool
  hasErrorListener :: bool
  trace :: "action list"

text \<open>
  What the usb transport answers to the calls of one session operation: the exception
  thrown inside the \<open>try\<close> block of \<open>open\<close>, the error handed to the completion
  callback of \<open>controlTransfer\<close>, the exception thrown by the first \<open>release\<close>, the
  errors handed to the completion callbacks of the two \<open>release\<close> calls, and the
  exception thrown by \<open>attachKernelDriver\<close> or \<open>_device.close\<close>. \<open>None\<close> is success.
  Every asynchronous call is taken to complete.
\<close>

record transport =
  acquire :: "js_error option"
  controlTransfer :: "js_error option"
  release_data_throw :: "js_error option"
  release_data :: "js_error option"
  release_ctl :: "js_error option"
  device_close :: "js_error option"

section \<open>The session (\<open>PenDaq\<close> of src/unnamed/part_001)\<close>

text \<open>
  The sources hold two copies of the session. The one modelled here is the copy with the
  \<open>_isConnected\<close> field and the \<open>_onDisconnect\<close> method, which the registry of
  src/src/index.js uses. The older copy, src/pendaq.js, has neither; its decoder is
  modelled further down.
\<close>

definition act :: "action \<Rightarrow> PenDaq \<Rightarrow> PenDaq" where
  "act a s = s\<lparr>trace := trace s @ [a]\<rparr>"

text \<open>
  \<open>self.emit(evt, ...)\<close> of Node's event emitter. An \<open>error\<close> event that has no
  listener is not delivered: \<open>emit\<close> throws the error it was given. Every other event
  is delivered, to whatever listeners there are. The result is the session and the
  exception, if one is thrown. Listeners are code of the caller: they are taken to return
  normally and not to call back into the session.
\<close>

definition emit :: "event \<Rightarrow> PenDaq \<Rightarrow> PenDaq \<times> js_error option" where
  "emit ev s =
     (case ev of
        EError err \<Rightarrow> (if hasErrorListener s then (act (Emit ev) s, None) else (s, Some err))
      | _ \<Rightarrow> (act (Emit ev) s, None))"

text \<open>
  How a piece of an operation ends: by calling the caller's completion callback with an
  argument, without calling it, or by an exception.
\<close>

datatype completion = Calls "js_error option" | NoCall | Throws js_error

text \<open>
  The caller's completion callback \<open>cb\<close>: \<open>True\<close> when a function was passed.
  \<open>invoke\<close> is both \<open>process.nextTick(cb, arg)\<close> of \<open>callbackError\<close> and the
  once-listener of \<open>emitOnce\<close>; in every operation it is the last thing that happens.
  An exception that leaves the operation is recorded, and what the operation had scheduled
  for later (the callback that \<open>callbackError\<close> hands to \<open>process.nextTick\<close>
  before \<open>emit\<close> throws) is not followed: an exception that nothing catches ends a
  Node process.
\<close>

definition invoke :: "bool \<Rightarrow> js_error option \<Rightarrow> PenDaq \<Rightarrow> PenDaq" where
  "invoke cb arg s = (if cb then act (Callback arg) s else s)"

definition finish :: "bool \<Rightarrow> PenDaq \<times> completion \<Rightarrow> PenDaq" where
  "finish cb r =
     (case r of
        (s, Calls arg) \<Rightarrow> invoke cb arg s
      | (s, NoCall) \<Rightarrow> s
      | (s, Throws e) \<Rightarrow> act (Uncaught e) s)"

text \<open>The same for a handler that has no callback.\<close>

definition uncaught :: "PenDaq \<times> js_error option \<Rightarrow> PenDaq" where
  "uncaught r = (case r of (s, None) \<Rightarrow> s | (s, Some e) \<Rightarrow> act (Uncaught e) s)"

text \<open>
  \<open>function PenDaq(device)\<close>. A new event emitter has no listeners.
\<close>

definition new_PenDaq :: "usb_device \<Rightarrow> js_error + PenDaq" where
  "new_PenDaq dev =
     (if deviceDescriptor dev = None then Inl (TypeError ''Expected a usb device'')
      else Inr \<lparr>device = dev, isOpen = False, isRunning = False, isConnected = True,
                hasErrorListener = False, trace = []\<rparr>)"

text \<open>
  \<open>emitOnce(evt, f, self)\<close>: the event is emitted, and \<open>f\<close>, registered as a
  once-listener just before, is called after the listeners that were there.
\<close>

definition emitOnce :: "event \<Rightarrow> PenDaq \<Rightarrow> PenDaq \<times> completion" where
  "emitOnce ev s =
     (case emit ev s of (s', None) \<Rightarrow> (s', Calls None) | (s', Some e) \<Rightarrow> (s', Throws e))"

text \<open>
  \<open>callbackError(test, cb, arg, self)\<close> when \<open>test\<close> holds; \<open>self\<close> is \<open>True\<close>
  when the fourth argument was passed. The callback is scheduled for the next tick, so it
  runs after the error event; when \<open>self.emit('error', arg)\<close> throws, the exception
  leaves \<open>callbackError\<close> and its caller.
\<close>

definition callbackError :: "js_error \<Rightarrow> bool \<Rightarrow> PenDaq \<Rightarrow> PenDaq \<times> completion" where
  "callbackError arg self s =
     (if self then
        (case emit (EError arg) s of
           (s', None) \<Rightarrow> (s', Calls (Some arg))
         | (s', Some e) \<Rightarrow> (s', Throws e))
      else (s, Calls (Some arg)))"

text \<open>\<open>self.emit('error', err)\<close> followed by \<open>return\<close>, as in \<open>close\<close>.\<close>

definition emitError :: "js_error \<Rightarrow> PenDaq \<Rightarrow> PenDaq \<times> completion" where
  "emitError err s =
     (case emit (EError err) s of (s', None) \<Rightarrow> (s', NoCall) | (s', Some e) \<Rightarrow> (s', Throws e))"

text \<open>\<open>PenDaq.prototype.open\<close>\<close>

definition open_body :: "transport \<Rightarrow> PenDaq \<Rightarrow> PenDaq \<times> completion" where
  "open_body tr s =
     (if isOpen s \<or> \<not> isConnected s then (s, NoCall)
      else (case acquire tr of
              Some err \<Rightarrow> callbackError err True (act Acquire s)
            | None \<Rightarrow> emitOnce EOpen ((act Acquire s)\<lparr>isOpen := True\<rparr>)))"

definition PenDaq_open :: "bool \<Rightarrow> transport \<Rightarrow> PenDaq \<Rightarrow> PenDaq" where
  "PenDaq_open cb tr s = finish cb (open_body tr s)"

text \<open>
  \<open>PenDaq.prototype.start\<close>, followed up to the completion of the control transfer
  with no other handler running in between.
\<close>

definition start_body :: "transport \<Rightarrow> PenDaq \<Rightarrow> PenDaq \<times> completion" where
  "start_body tr s =
     (if \<not> isOpen s then callbackError NotOpen False s
      else if \<not> isConnected s then callbackError NotConnected False s
      else (case controlTransfer tr of
              Some err \<Rightarrow> callbackError err True (act (ControlTransfer 0x21 0x22 3 0) s)
            | None \<Rightarrow>
                emitOnce EStart ((act (ControlTransfer 0x21 0x22 3 0) s)\<lparr>isRunning := True\<rparr>)))"

definition PenDaq_start :: "bool \<Rightarrow> transport \<Rightarrow> PenDaq \<Rightarrow> PenDaq" where
  "PenDaq_start cb tr s = finish cb (start_body tr s)"

text \<open>
  \<open>PenDaq.prototype.stop\<close>. The control transfer is asynchronous: \<open>stop\<close> returns
  after submitting it, and its completion callback runs later. \<open>meanwhile\<close> is what
  the handlers that run in between (a detach, incoming data, other calls) do to the
  session.
\<close>

definition stop_body :: "transport \<Rightarrow> (PenDaq \<Rightarrow> PenDaq) \<Rightarrow> PenDaq \<Rightarrow> PenDaq \<times> completion" where
  "stop_body tr meanwhile s =
     (if \<not> isOpen s then callbackError NotOpen False s
      else if \<not> isConnected s then callbackError NotConnected False s
      else (let s1 = meanwhile (act (ControlTransfer 0x21 0x22 0 0) s) in
            case controlTransfer tr of
              Some err \<Rightarrow> callbackError err True s1
            | None \<Rightarrow> emitOnce EStop (s1\<lparr>isRunning := False\<rparr>)))"

text \<open>\<open>stop\<close> with no other handler running before the transfer completes.\<close>

definition PenDaq_stop :: "bool \<Rightarrow> transport \<Rightarrow> PenDaq \<Rightarrow> PenDaq" where
  "PenDaq_stop cb tr s = finish cb (stop_body tr (\<lambda>s. s) s)"

text \<open>
  The part of \<open>PenDaq.prototype.close\<close> that releases the interfaces (the \<open>try\<close>
  block). Both \<open>release\<close> calls are asynchronous; \<open>meanwhile2\<close> and \<open>meanwhile3\<close>
  are what other handlers do to the session before the first and the second one complete.
  The completion callbacks do not test the session state again.
\<close>

definition close_release ::
  "transport \<Rightarrow> (PenDaq \<Rightarrow> PenDaq) \<Rightarrow> (PenDaq \<Rightarrow> PenDaq) \<Rightarrow> PenDaq \<Rightarrow> PenDaq \<times> completion" where
  "close_release tr meanwhile2 meanwhile3 s =
     (case release_data_throw tr of
        Some err \<Rightarrow> emitError err (act ReleaseData s)
      | None \<Rightarrow>
         (let s1 = meanwhile2 (act ReleaseData s) in
          case release_data tr of
            Some err \<Rightarrow> emitError err s1
          | None \<Rightarrow>
             (let s2 = meanwhile3 (act ReleaseCtl s1) in
              case release_ctl tr of
                Some err \<Rightarrow> emitError err s2
              | None \<Rightarrow>
                 (case device_close tr of
                    Some err \<Rightarrow> (act DeviceClose s2, Throws err)
                  | None \<Rightarrow> emitOnce EClose ((act DeviceClose s2)\<lparr>isOpen := False\<rparr>)))))"

text \<open>
  \<open>PenDaq.prototype.close\<close>. When the acquisition is running it calls \<open>stop\<close> with a
  callback of its own and returns; that callback runs when the control transfer has
  completed, after the handlers of \<open>meanwhile1\<close>, and reports the error of \<open>stop\<close> or
  calls \<open>close\<close> again, which tests \<open>_isOpen\<close> and \<open>_isConnected\<close> again.
\<close>

function close_body ::
  "transport \<Rightarrow> (PenDaq \<Rightarrow> PenDaq) \<Rightarrow> (PenDaq \<Rightarrow> PenDaq) \<Rightarrow> (PenDaq \<Rightarrow> PenDaq) \<Rightarrow> PenDaq
     \<Rightarrow> PenDaq \<times> completion" where
  "close_body tr meanwhile1 meanwhile2 meanwhile3 s =
     (if \<not> isOpen s \<or> \<not> isConnected s then emitOnce EClose s
      else if isRunning s then
        (case stop_body tr meanwhile1 s of
           (s', Calls (Some err)) \<Rightarrow> callbackError err True s'
         | (s', Calls None) \<Rightarrow> close_body tr meanwhile1 meanwhile2 meanwhile3 s'
         | (s', NoCall) \<Rightarrow> (s', NoCall)
         | (s', Throws e) \<Rightarrow> (s', Throws e))
      else close_release tr meanwhile2 meanwhile3 s)"
  by pat_completeness auto
termination
  by (relation "measure (\<lambda>(tr, m1, m2, m3, s). if isRunning s then 1 else 0)")
     (auto simp: stop_body_def callbackError_def emitOnce_def emit_def act_def Let_def
        split: if_splits option.splits prod.splits)

declare close_body.simps [simp del]

definition close_with ::
  "bool \<Rightarrow> transport \<Rightarrow> (PenDaq \<Rightarrow> PenDaq) \<Rightarrow> (PenDaq \<Rightarrow> PenDaq) \<Rightarrow> (PenDaq \<Rightarrow> PenDaq) \<Rightarrow> PenDaq
     \<Rightarrow> PenDaq" where
  "close_with cb tr meanwhile1 meanwhile2 meanwhile3 s =
     finish cb (close_body tr meanwhile1 meanwhile2 meanwhile3 s)"

text \<open>\<open>close\<close> with no other handler running before it has completed.\<close>

definition PenDaq_close :: "bool \<Rightarrow> transport \<Rightarrow> PenDaq \<Rightarrow> PenDaq" where
  "PenDaq_close cb tr s = close_with cb tr (\<lambda>s. s) (\<lambda>s. s) (\<lambda>s. s) s"

text \<open>\<open>PenDaq.prototype._onDisconnect\<close>\<close>

definition PenDaq_onDisconnect :: "PenDaq \<Rightarrow> PenDaq" where
  "PenDaq_onDisconnect s = uncaught (emit EDisconnected (s\<lparr>isConnected := False\<rparr>))"

subsection \<open>The decoder\<close>

text \<open>
  \<open>Buffer.readUInt16LE\<close> and \<open>Buffer.readUInt8\<close> of Node: a read that does not fit
  in the buffer throws a \<open>RangeError\<close>.
\<close>

definition readUInt8 :: "buffer \<Rightarrow> nat \<Rightarrow> js_error + nat" where
  "readUInt8 data i = (if i + 1 \<le> length data then Inr (unat (data ! i)) else Inl RangeError)"

definition readUInt16LE :: "buffer \<Rightarrow> nat \<Rightarrow> js_error + nat" where
  "readUInt16LE data i =
     (if i + 2 \<le> length data then Inr (unat (data ! i) + 256 * unat (data ! (i + 1)))
      else Inl RangeError)"

text \<open>The five reads of one pass through the loop body, in their order.\<close>

definition readRecord :: "buffer \<Rightarrow> nat \<Rightarrow> js_error + (nat \<times> nat \<times> nat \<times> nat \<times> nat)" where
  "readRecord data i =
     (case readUInt16LE data i of Inl e \<Rightarrow> Inl e | Inr an1 \<Rightarrow>
     (case readUInt16LE data (i + 2) of Inl e \<Rightarrow> Inl e | Inr an2 \<Rightarrow>
     (case readUInt16LE data (i + 4) of Inl e \<Rightarrow> Inl e | Inr an3 \<Rightarrow>
     (case readUInt16LE data (i + 6) of Inl e \<Rightarrow> Inl e | Inr an4 \<Rightarrow>
     (case readUInt8 data (i + 8) of Inl e \<Rightarrow> Inl e | Inr chksum \<Rightarrow>
        Inr (an1, an2, an3, an4, chksum))))))"

text \<open>The checksum test and the event of one record.\<close>

definition checkRecord :: "nat \<times> nat \<times> nat \<times> nat \<times> nat \<Rightarrow> event" where
  "checkRecord r =
     (case r of (an1, an2, an3, an4, chksum) \<Rightarrow>
        if (an1 + an2 + an3 + an4) AND 0xFF = chksum then EData [an1, an2, an3, an4]
        else EError ChecksumMismatch)"

text \<open>
  The \<open>for\<close> loop of \<open>PenDaq.prototype._onRawData\<close>, from index \<open>i\<close>. Nothing in
  the loop catches an exception: one thrown by a read or by \<open>emit\<close> ends the loop and
  leaves \<open>_onRawData\<close>. The events emitted before stay emitted, so the result is the
  session together with the exception.
\<close>

function onRawData_loop :: "buffer \<Rightarrow> nat \<Rightarrow> PenDaq \<Rightarrow> PenDaq \<times> js_error option" where
  "onRawData_loop data i s =
     (if i < length data then
        (if i + 9 > length data then (s, None)
         else (case readRecord data i of
                 Inl e \<Rightarrow> (s, Some e)
               | Inr r \<Rightarrow>
                   (case emit (checkRecord r) s of
                      (s', Some e) \<Rightarrow> (s', Some e)
                    | (s', None) \<Rightarrow> onRawData_loop data (i + 9) s')))
      else (s, None))"
  by pat_completeness auto
termination
  by (relation "measure (\<lambda>(data, i, s). length data - i)") auto

declare onRawData_loop.simps [simp del]

text \<open>
  \<open>PenDaq.prototype._onRawData\<close>. The argument is a buffer by its type, so the
  \<open>instanceof\<close> test passes.
\<close>

definition PenDaq_onRawData :: "PenDaq \<Rightarrow> buffer \<Rightarrow> PenDaq \<times> js_error option" where
  "PenDaq_onRawData s data = onRawData_loop data 0 s"

text \<open>
  The listener \<open>incomingData\<close> that \<open>open\<close> puts on the data endpoint.
\<close>

definition incomingData :: "PenDaq \<Rightarrow> buffer \<Rightarrow> PenDaq \<times> js_error option" where
  "incomingData s data =
     (case emit (ERawData data) s of
        (s', Some e) \<Rightarrow> (s', Some e)
      | (s', None) \<Rightarrow> PenDaq_onRawData s' data)"

subsection \<open>The older copy of the decoder\<close>

text \<open>
  \<open>PenDaq.prototype.onRawData\<close> of the older copy of the session (src/pendaq.js):
  the same loop without the test \<open>i + 9 > data.length\<close>.
\<close>

function legacy_onRawData_loop :: "buffer \<Rightarrow> nat \<Rightarrow> PenDaq \<Rightarrow> PenDaq \<times> js_error option" where
  "legacy_onRawData_loop data i s =
     (if i < length data then
        (case readRecord data i of
           Inl e \<Rightarrow> (s, Some e)
         | Inr r \<Rightarrow>
             (case emit (checkRecord r) s of
                (s', Some e) \<Rightarrow> (s', Some e)
              | (s', None) \<Rightarrow> legacy_onRawData_loop data (i + 9) s'))
      else (s, None))"
  by pat_completeness auto
termination
  by (relation "measure (\<lambda>(data, i, s). length data - i)") auto

declare legacy_onRawData_loop.simps [simp del]

definition legacy_onRawData :: "PenDaq \<Rightarrow> buffer \<Rightarrow> PenDaq \<times> js_error option" where
  "legacy_onRawData s data = legacy_onRawData_loop data 0 s"

subsection \<open>Sequences of operations on one session\<close>

text \<open>
  What can happen to a session, one after the other: the calls of the client (\<open>OnError\<close>
  is \<open>on('error', listener)\<close> of the event emitter), incoming data, and the detach
  reported by the registry. An exception that leaves one of them is recorded in the trace,
  and the sequence goes on, as it does when the client catches the exception.
\<close>

datatype operation =
    Open bool transport
  | Start bool transport
  | Stop bool transport
  | Close bool transport
  | RawData buffer
  | Disconnect
  | OnError

fun apply_operation :: "operation \<Rightarrow> PenDaq \<Rightarrow> PenDaq" where
  "apply_operation (Open cb tr) s = PenDaq_open cb tr s"
| "apply_operation (Start cb tr) s = PenDaq_start cb tr s"
| "apply_operation (Stop cb tr) s = PenDaq_stop cb tr s"
| "apply_operation (Close cb tr) s = PenDaq_close cb tr s"
| "apply_operation (RawData data) s = uncaught (incomingData s data)"
| "apply_operation Disconnect s = PenDaq_onDisconnect s"
| "apply_operation OnError s = s\<lparr>hasErrorListener := True\<rparr>"

fun run :: "operation list \<Rightarrow> PenDaq \<Rightarrow> PenDaq" where
  "run [] s = s"
| "run (x # xs) s = run xs (apply_operation x s)"

section \<open>The registry (src/src/index.js)\<close>

text \<open>
  The sessions are objects, shared between the \<open>devices\<close> array and the events that
  carry them, and \<open>_onDisconnect\<close> writes to the object. So the registry state has a
  store of session objects, and a reference to a session is its index in the store:
  \<open>new PenDaq(dev)\<close> appends to the store. The array \<open>devices\<close> is a list of
  references, and \<open>ee\<close> is the list of events emitted on the emitter \<open>ee\<close>, each with
  the value it carries (\<open>None\<close> for \<open>undefined\<close>).
\<close>

datatype registry_event = Connected "nat option" | Disconnected "nat option"

record registry =
  store :: "PenDaq list"
  devices :: "nat list"
  ee :: "registry_event list"

text \<open>The state after the module is loaded, before \<open>init\<close>.\<close>

definition empty_registry :: registry where
  "empty_registry = \<lparr>store = [], devices = [], ee = []\<rparr>"

text \<open>\<open>matchVidPid(desc1, desc2)\<close>\<close>

definition matchVidPid :: "descriptor option \<Rightarrow> descriptor option \<Rightarrow> bool" where
  "matchVidPid desc1 desc2 =
     (case desc1 of None \<Rightarrow> False | Some d1 \<Rightarrow>
     (case desc2 of None \<Rightarrow> False | Some d2 \<Rightarrow>
        idVendor d1 = idVendor d2 \<and> idProduct d1 = idProduct d2))"

text \<open>
  \<open>matchDeviceAddresses(dev1, dev2)\<close>. The operands \<open>dev1.busNumber\<close> and
  \<open>dev1.deviceAddress\<close> of \<open>&&\<close> are numbers, which are falsy when they are 0.
\<close>

definition matchDeviceAddresses :: "usb_device option \<Rightarrow> usb_device option \<Rightarrow> bool" where
  "matchDeviceAddresses dev1 dev2 =
     (case dev1 of None \<Rightarrow> False | Some d1 \<Rightarrow>
     (case dev2 of None \<Rightarrow> False | Some d2 \<Rightarrow>
        busNumber d1 \<noteq> 0 \<and> deviceAddress d1 \<noteq> 0
        \<and> busNumber d1 = busNumber d2 \<and> deviceAddress d1 = deviceAddress d2))"

text \<open>
  The first loop of \<open>checkNewDevice\<close>, over the allow-list \<open>ids.usbIDs\<close>. The file
  \<open>ids.json\<close> is not part of the sources, so the list is a parameter.
\<close>

fun matchIDs :: "descriptor list \<Rightarrow> descriptor option \<Rightarrow> bool" where
  "matchIDs [] desc = False"
| "matchIDs (x # xs) desc = (if matchVidPid (Some x) desc then True else matchIDs xs desc)"

text \<open>
  The loop over \<open>devices\<close> of \<open>checkNewDevice\<close> and of \<open>checkRemoveDevice\<close>: the
  index of the first entry whose \<open>_device\<close> matches, counted from \<open>i\<close>.
\<close>

fun findDevice :: "PenDaq list \<Rightarrow> nat list \<Rightarrow> usb_device \<Rightarrow> nat \<Rightarrow> nat option" where
  "findDevice st [] dev i = None"
| "findDevice st (h # hs) dev i =
     (if matchDeviceAddresses (Some (device (st ! h))) (Some dev) then Some i
      else findDevice st hs dev (Suc i))"

text \<open>\<open>checkNewDevice(dev)\<close>\<close>

definition checkNewDevice ::
  "descriptor list \<Rightarrow> registry \<Rightarrow> usb_device option \<Rightarrow> js_error + registry" where
  "checkNewDevice ids reg devo =
     (case devo of None \<Rightarrow> Inr reg | Some dev \<Rightarrow>
        if deviceDescriptor dev = None then Inr reg
        else if \<not> matchIDs ids (deviceDescriptor dev) then Inr reg
        else if findDevice (store reg) (devices reg) dev 0 \<noteq> None then Inr reg
        else (case new_PenDaq dev of
                Inl e \<Rightarrow> Inl e
              | Inr pendaq \<Rightarrow>
                  Inr (reg\<lparr>store := store reg @ [pendaq],
                           devices := devices reg @ [length (store reg)],
                           ee := ee reg @ [Connected (Some (length (store reg)))]\<rparr>)))"

text \<open>\<open>devices[i]\<close>: an index outside of the array reads \<open>undefined\<close>.\<close>

definition array_get :: "nat list \<Rightarrow> nat \<Rightarrow> nat option" where
  "array_get xs i = (if i < length xs then Some (xs ! i) else None)"

text \<open>\<open>devices.splice(i, 1)\<close>\<close>

definition splice1 :: "nat list \<Rightarrow> nat \<Rightarrow> nat list" where
  "splice1 xs i = take i xs @ drop (Suc i) xs"

text \<open>\<open>checkRemoveDevice(dev)\<close>\<close>

definition checkRemoveDevice :: "registry \<Rightarrow> usb_device option \<Rightarrow> registry" where
  "checkRemoveDevice reg devo =
     (case devo of None \<Rightarrow> reg | Some dev \<Rightarrow>
        if deviceDescriptor dev = None then reg
        else (case findDevice (store reg) (devices reg) dev 0 of
                None \<Rightarrow> reg
              | Some i \<Rightarrow>
                  (let h = devices reg ! i;
                       reg1 = reg\<lparr>store := (store reg)[h := PenDaq_onDisconnect (store reg ! h)]\<rparr>;
                       reg2 = reg1\<lparr>devices := splice1 (devices reg1) i\<rparr>
                   in reg2\<lparr>ee := ee reg2 @ [Disconnected (array_get (devices reg2) i)]\<rparr>)))"

text \<open>A run of attach notifications; an exception ends it.\<close>

fun attach_all ::
  "descriptor list \<Rightarrow> registry \<Rightarrow> usb_device option list \<Rightarrow> js_error + registry" where
  "attach_all ids reg [] = Inr reg"
| "attach_all ids reg (d # ds) =
     (case checkNewDevice ids reg d of Inl e \<Rightarrow> Inl e | Inr reg' \<Rightarrow> attach_all ids reg' ds)"

text \<open>
  The tracked sessions and the \<open>connected\<close> events of a registry that belong to the
  device at bus \<open>b\<close>, address \<open>a\<close>.
\<close>

definition at_address :: "nat \<Rightarrow> nat \<Rightarrow> PenDaq list \<Rightarrow> nat \<Rightarrow> bool" where
  "at_address b a st h = (busNumber (device (st ! h)) = b \<and> deviceAddress (device (st ! h)) = a)"

definition tracked_at :: "nat \<Rightarrow> nat \<Rightarrow> registry \<Rightarrow> nat list" where
  "tracked_at b a reg = filter (at_address b a (store reg)) (devices reg)"

definition connected_at :: "nat \<Rightarrow> nat \<Rightarrow> registry \<Rightarrow> registry_event list" where
  "connected_at b a reg =
     filter (\<lambda>e. case e of Connected (Some h) \<Rightarrow> at_address b a (store reg) h | _ \<Rightarrow> False)
       (ee reg)"

text \<open>A device that passes the two tests at the top of \<open>checkNewDevice\<close>.\<close>

definition accepted :: "descriptor list \<Rightarrow> usb_device \<Rightarrow> bool" where
  "accepted ids d = (deviceDescriptor d \<noteq> None \<and> matchIDs ids (deviceDescriptor d))"

text \<open>
  Every reference held by the registry denotes an object of the store, as every
  reference of the program does. The registry after loading has this property, and
  \<open>checkNewDevice\<close> and \<open>checkRemoveDevice\<close> keep it.
\<close>

definition handles_ok :: "registry \<Rightarrow> bool" where
  "handles_ok reg =
     ((\<forall>h \<in> set (devices reg). h < length (store reg))
      \<and> (\<forall>e \<in> set (ee reg). case e of Connected (Some h) \<Rightarrow> h < length (store reg) | _ \<Rightarrow> True))"

section \<open>What the decoder is checked against\<close>

text \<open>
  The 16-bit little-endian value at offset \<open>i\<close> of a buffer, and the events that the
  windows of a buffer stand for: a sample when the ninth byte of the window is the low 8
  bits of the sum of its four values, a checksum error otherwise.
\<close>

definition u16_at :: "buffer \<Rightarrow> nat \<Rightarrow> nat" where
  "u16_at data i = unat (data ! i) + 256 * unat (data ! (i + 1))"

definition window_sum :: "buffer \<Rightarrow> nat \<Rightarrow> nat" where
  "window_sum data i = u16_at data i + u16_at data (i + 2) + u16_at data (i + 4) + u16_at data (i + 6)"

definition window_event :: "buffer \<Rightarrow> nat \<Rightarrow> event" where
  "window_event data i =
     (if window_sum data i mod 256 = unat (data ! (i + 8))
      then EData [u16_at data i, u16_at data (i + 2), u16_at data (i + 4), u16_at data (i + 6)]
      else EError ChecksumMismatch)"

definition window_events :: "buffer \<Rightarrow> event list" where
  "window_events data = map (\<lambda>k. window_event data (9 * k)) [0..<length data div 9]"

text \<open>
  What a call of the decoder delivers and throws, by whether the session has a listener
  for \<open>error\<close> events: with one, the events of all complete windows; without one, the
  samples before the first window with a wrong checksum, whose error is thrown.
\<close>

definition is_sample :: "event \<Rightarrow> bool" where
  "is_sample ev = (case ev of EData v \<Rightarrow> True | _ \<Rightarrow> False)"

definition delivered :: "bool \<Rightarrow> event list \<Rightarrow> event list" where
  "delivered listener evs = (if listener then evs else takeWhile is_sample evs)"

definition thrown :: "bool \<Rightarrow> event list \<Rightarrow> js_error option" where
  "thrown listener evs =
     (if listener \<or> list_all is_sample evs then None else Some ChecksumMismatch)"

text \<open>
  The actions of a handler of incoming data that returns normally: the \<open>rawdata\<close> event
  and the events of the decoder.
\<close>

definition is_data_action :: "action \<Rightarrow> bool" where
  "is_data_action a =
     (case a of
        Emit (ERawData d) \<Rightarrow> True
      | Emit (EData v) \<Rightarrow> True
      | Emit (EError e) \<Rightarrow> e = ChecksumMismatch
      | _ \<Rightarrow> False)"

section \<open>Concrete inputs\<close>

text \<open>A device and a session as \<open>new PenDaq\<close> leaves it, for the examples.\<close>

definition example_device :: usb_device where
  "example_device = \<lparr>busNumber = 1, deviceAddress = 2,
     deviceDescriptor = Some \<lparr>idVendor = 0x04D8, idProduct = 0x000A\<rparr>\<rparr>"

definition example_session :: PenDaq where
  "example_session = \<lparr>device = example_device, isOpen = False, isRunning = False,
     isConnected = True, hasErrorListener = False, trace = []\<rparr>"

text \<open>The same session after the client has registered a listener for \<open>error\<close>.\<close>

definition listening_session :: PenDaq where
  "listening_session = apply_operation OnError example_session"


text \<open>
  An allow-list with the ids of the example device, a second device of the same model at
  another address, and such a device whose bus number is 0.
\<close>

definition example_ids :: "descriptor list" where
  "example_ids = [\<lparr>idVendor = 0x04D8, idProduct = 0x000A\<rparr>]"

definition second_device :: usb_device where
  "second_device = \<lparr>busNumber = 1, deviceAddress = 3,
     deviceDescriptor = Some \<lparr>idVendor = 0x04D8, idProduct = 0x000A\<rparr>\<rparr>"

definition bus0_device :: usb_device where
  "bus0_device = \<lparr>busNumber = 0, deviceAddress = 1,
     deviceDescriptor = Some \<lparr>idVendor = 0x04D8, idProduct = 0x000A\<rparr>\<rparr>"

text \<open>
  A transport on which every call succeeds, and the session after \<open>open()\<close> and
  \<open>start()\<close> on it.
\<close>

definition ok_transport :: transport where
  "ok_transport = \<lparr>acquire = None, controlTransfer = None, release_data_throw = None,
     release_data = None, release_ctl = None, device_close = None\<rparr>"

definition running_session :: PenDaq where
  "running_session =
     PenDaq_start False ok_transport (PenDaq_open False ok_transport example_session)"

section \<open>The decoder: proofs\<close>

text \<open>
  On the small numbers of a record, \<open>& 0xFF\<close> is the remainder modulo 256.
\<close>

lemma and_255_mod: "(n::nat) AND 0xFF = n mod 256"
proof -
  have "n AND mask 8 = take_bit 8 n" by (simp only: take_bit_eq_mask)
  moreover have "(mask 8 :: nat) = 0xFF" by (simp add: mask_eq_exp_minus_1)
  ultimately show ?thesis by (simp add: take_bit_eq_mod)
qed

lemma readRecord_complete:
  "i + 9 \<le> length data \<Longrightarrow>
   readRecord data i =
     Inr (u16_at data i, u16_at data (i + 2), u16_at data (i + 4), u16_at data (i + 6),
          unat (data ! (i + 8)))"
  by (simp add: readRecord_def readUInt16LE_def readUInt8_def u16_at_def)

lemma checkRecord_window:
  "checkRecord (u16_at data i, u16_at data (i + 2), u16_at data (i + 4), u16_at data (i + 6),
                unat (data ! (i + 8))) = window_event data i"
  by (simp add: checkRecord_def window_event_def window_sum_def and_255_mod)

lemma window_event_kind:
  "(\<exists>v. window_event data i = EData v) \<or> window_event data i = EError ChecksumMismatch"
  by (simp add: window_event_def)

lemma is_sample_window:
  "is_sample (window_event data i) \<longleftrightarrow> window_sum data i mod 256 = unat (data ! (i + 8))"
  by (simp add: window_event_def is_sample_def)

lemma emit_window:
  "emit (window_event data i) s =
     (if is_sample (window_event data i) \<or> hasErrorListener s
      then (act (Emit (window_event data i)) s, None)
      else (s, Some ChecksumMismatch))"
  by (simp add: window_event_def is_sample_def emit_def)

lemma loop_stop: "\<not> i + 9 \<le> length data \<Longrightarrow> onRawData_loop data i s = (s, None)"
  by (subst onRawData_loop.simps) simp

lemma loop_step_emit:
  assumes "i + 9 \<le> length data"
    and "is_sample (window_event data i) \<or> hasErrorListener s"
  shows "onRawData_loop data i s =
           onRawData_loop data (i + 9) (act (Emit (window_event data i)) s)"
proof -
  have a: "i < length data" and b: "\<not> length data < i + 9" using assms(1) by simp_all
  have e: "emit (window_event data i) s = (act (Emit (window_event data i)) s, None)"
    using assms(2) by (simp add: emit_window)
  show ?thesis
    by (subst onRawData_loop.simps)
       (simp only: a b if_True if_False readRecord_complete [OF assms(1)] sum.case
          checkRecord_window e prod.case option.case)
qed

lemma loop_step_throw:
  assumes "i + 9 \<le> length data"
    and "\<not> is_sample (window_event data i)" and "\<not> hasErrorListener s"
  shows "onRawData_loop data i s = (s, Some ChecksumMismatch)"
proof -
  have a: "i < length data" and b: "\<not> length data < i + 9" using assms(1) by simp_all
  have e: "emit (window_event data i) s = (s, Some ChecksumMismatch)"
    using assms(2,3) by (simp add: emit_window)
  show ?thesis
    by (subst onRawData_loop.simps)
       (simp only: a b if_True if_False readRecord_complete [OF assms(1)] sum.case
          checkRecord_window e prod.case option.case)
qed

lemma count_step:
  assumes "i + 9 \<le> (n::nat)"
  shows "(n - i) div 9 = Suc ((n - (i + 9)) div 9)"
proof -
  have "n - i = (n - (i + 9)) + 9" using assms by simp
  then have "(n - i) div 9 = ((n - (i + 9)) + 9) div 9" by (rule arg_cong)
  also have "\<dots> = Suc ((n - (i + 9)) div 9)" by simp
  finally show ?thesis .
qed

text \<open>The events of the complete windows from offset \<open>i\<close> on.\<close>

lemma windows_from_step:
  assumes "i + 9 \<le> length data"
  shows "map (\<lambda>j. window_event data (i + 9 * j)) [0..<(length data - i) div 9]
       = window_event data i #
           map (\<lambda>j. window_event data (i + 9 + 9 * j)) [0..<(length data - (i + 9)) div 9]"
proof -
  have idx: "\<And>j. i + 9 + 9 * j = i + 9 * Suc j" by simp
  show ?thesis
    unfolding count_step [OF assms] map_upt_Suc idx by simp
qed

lemma loop_result:
  "onRawData_loop data i s =
     (s\<lparr>trace := trace s @ map Emit
           (delivered (hasErrorListener s)
              (map (\<lambda>j. window_event data (i + 9 * j)) [0..<(length data - i) div 9]))\<rparr>,
      thrown (hasErrorListener s)
        (map (\<lambda>j. window_event data (i + 9 * j)) [0..<(length data - i) div 9]))"
proof (induction data i s rule: onRawData_loop.induct)
  case (1 data i s)
  let ?w = "window_event data i"
  let ?rest = "map (\<lambda>j. window_event data (i + 9 + 9 * j)) [0..<(length data - (i + 9)) div 9]"
  show ?case
  proof (cases "i + 9 \<le> length data")
    case False
    then have "(length data - i) div 9 = 0" by simp
    then show ?thesis using False
      by (simp add: loop_stop delivered_def thrown_def)
  next
    case True
    have lt: "i < length data" using True by simp
    have nb: "\<not> length data < i + 9" using True by simp
    note ws = windows_from_step [OF True]
    show ?thesis
    proof (cases "is_sample ?w \<or> hasErrorListener s")
      case False
      then have "onRawData_loop data i s = (s, Some ChecksumMismatch)"
        using loop_step_throw [OF True] by simp
      then show ?thesis using False
        unfolding ws by (simp add: delivered_def thrown_def)
    next
      case emitted: True
      let ?s1 = "act (Emit ?w) s"
      have e: "emit (checkRecord (u16_at data i, u16_at data (i + 2), u16_at data (i + 4),
                 u16_at data (i + 6), unat (data ! (i + 8)))) s = (?s1, None)"
        using emitted unfolding checkRecord_window by (simp add: emit_window)
      have ih: "onRawData_loop data (i + 9) ?s1 =
        (?s1\<lparr>trace := trace ?s1 @ map Emit (delivered (hasErrorListener ?s1) ?rest)\<rparr>,
         thrown (hasErrorListener ?s1) ?rest)"
        by (rule "1.IH" [OF lt nb readRecord_complete [OF True] e [symmetric] refl])
      have l: "hasErrorListener ?s1 = hasErrorListener s" by (simp add: act_def)
      have d: "delivered (hasErrorListener s) (?w # ?rest)
          = ?w # delivered (hasErrorListener s) ?rest"
        using emitted by (auto simp: delivered_def)
      have t: "thrown (hasErrorListener s) (?w # ?rest) = thrown (hasErrorListener s) ?rest"
        using emitted by (auto simp: thrown_def)
      show ?thesis
        unfolding loop_step_emit [OF True emitted] ih ws l d t
        by (simp add: act_def)
    qed
  qed
qed

lemma onRawData_result:
  "PenDaq_onRawData s data =
     (s\<lparr>trace := trace s @ map Emit (delivered (hasErrorListener s) (window_events data))\<rparr>,
      thrown (hasErrorListener s) (window_events data))"
  by (simp add: PenDaq_onRawData_def loop_result window_events_def)

lemma length_window_events: "length (window_events data) = length data div 9"
  by (simp add: window_events_def)

lemma nth_window_events:
  "k < length data div 9 \<Longrightarrow> window_events data ! k = window_event data (9 * k)"
  by (simp add: window_events_def)

lemma complete_window_index:
  assumes "9 * k + 9 \<le> length data"
  shows "k < length data div 9"
proof -
  have "Suc k \<le> length data div 9" using assms by (simp add: less_eq_div_iff_mult_less_eq)
  then show ?thesis by simp
qed

lemma window_event_take:
  assumes "i + 9 \<le> n"
  shows "window_event (take n data) i = window_event data i"
  using assms by (simp add: window_event_def window_sum_def u16_at_def)

lemma window_events_take:
  "window_events (take (9 * (length data div 9)) data) = window_events data"
proof -
  have le: "9 * (length data div 9) \<le> length data" by simp
  have len: "length (take (9 * (length data div 9)) data) div 9 = length data div 9"
    using le by (simp add: min_absorb2)
  have "\<And>k. k < length data div 9 \<Longrightarrow>
      window_event (take (9 * (length data div 9)) data) (9 * k) = window_event data (9 * k)"
  proof -
    fix k assume "k < length data div 9"
    then have "Suc k \<le> length data div 9" by simp
    then have "9 * Suc k \<le> 9 * (length data div 9)" by (rule mult_le_mono2)
    then have "9 * k + 9 \<le> 9 * (length data div 9)" by simp
    then show "window_event (take (9 * (length data div 9)) data) (9 * k)
        = window_event data (9 * k)"
      by (rule window_event_take)
  qed
  then show ?thesis
    unfolding window_events_def len by (intro map_cong) simp_all
qed

text \<open>The events delivered are the events of the first windows, in their order.\<close>

lemma delivered_prefix:
  "length (delivered l evs) \<le> length evs
   \<and> (\<forall>j < length (delivered l evs). delivered l evs ! j = evs ! j)"
  by (simp add: delivered_def length_takeWhile_le takeWhile_nth)

lemma delivered_reaches:
  assumes "k < length evs" and "l \<or> (\<forall>j < k. is_sample (evs ! j))" and "is_sample (evs ! k)"
  shows "k < length (delivered l evs)"
proof (cases l)
  case True
  then show ?thesis using assms(1) by (simp add: delivered_def)
next
  case False
  then have all: "\<forall>j \<le> k. is_sample (evs ! j)"
    using assms(2,3) by (auto simp: le_less)
  have "k < length (takeWhile is_sample evs)"
  proof (rule ccontr)
    assume "\<not> k < length (takeWhile is_sample evs)"
    then have le: "length (takeWhile is_sample evs) \<le> k" by simp
    then have "length (takeWhile is_sample evs) < length evs" using assms(1) by simp
    then have "\<not> is_sample (evs ! length (takeWhile is_sample evs))"
      by (rule nth_length_takeWhile)
    then show False using all le by blast
  qed
  then show ?thesis using False by (simp add: delivered_def)
qed

lemma two_windows:
  "length data = 18 \<Longrightarrow> window_events data = [window_event data 0, window_event data 9]"
  by (simp add: window_events_def numeral_2_eq_2)

subsection \<open>The older copy of the decoder\<close>

text \<open>
  Without the test \<open>i + 9 > data.length\<close> the loop reads past the end of a buffer
  whose length is not a multiple of 9: the complete windows are decoded as above, then the
  read throws.
\<close>

lemma readRecord_partial: "\<not> i + 9 \<le> length data \<Longrightarrow> readRecord data i = Inl RangeError"
  by (simp add: readRecord_def readUInt16LE_def readUInt8_def)

lemma legacy_loop_step_emit:
  assumes "i + 9 \<le> length data"
    and "is_sample (window_event data i) \<or> hasErrorListener s"
  shows "legacy_onRawData_loop data i s =
           legacy_onRawData_loop data (i + 9) (act (Emit (window_event data i)) s)"
proof -
  have a: "i < length data" using assms(1) by simp
  have e: "emit (window_event data i) s = (act (Emit (window_event data i)) s, None)"
    using assms(2) by (simp add: emit_window)
  show ?thesis
    by (subst legacy_onRawData_loop.simps)
       (simp only: a if_True readRecord_complete [OF assms(1)] sum.case
          checkRecord_window e prod.case option.case)
qed

lemma legacy_loop_step_throw:
  assumes "i + 9 \<le> length data"
    and "\<not> is_sample (window_event data i)" and "\<not> hasErrorListener s"
  shows "legacy_onRawData_loop data i s = (s, Some ChecksumMismatch)"
proof -
  have a: "i < length data" using assms(1) by simp
  have e: "emit (window_event data i) s = (s, Some ChecksumMismatch)"
    using assms(2,3) by (simp add: emit_window)
  show ?thesis
    by (subst legacy_onRawData_loop.simps)
       (simp only: a if_True readRecord_complete [OF assms(1)] sum.case
          checkRecord_window e prod.case option.case)
qed

lemma legacy_loop_range:
  "i < length data \<Longrightarrow> \<not> i + 9 \<le> length data \<Longrightarrow>
   legacy_onRawData_loop data i s = (s, Some RangeError)"
  by (subst legacy_onRawData_loop.simps) (simp add: readRecord_partial)

lemma legacy_loop_end: "\<not> i < length data \<Longrightarrow> legacy_onRawData_loop data i s = (s, None)"
  by (subst legacy_onRawData_loop.simps) simp

lemma mod_step:
  assumes "i + 9 \<le> (n::nat)"
  shows "(n - i) mod 9 = (n - (i + 9)) mod 9"
proof -
  have "n - i = (n - (i + 9)) + 9" using assms by simp
  then have "(n - i) mod 9 = ((n - (i + 9)) + 9) mod 9" by (rule arg_cong)
  also have "\<dots> = (n - (i + 9)) mod 9" by simp
  finally show ?thesis .
qed

lemma legacy_loop_result:
  "i \<le> length data \<Longrightarrow>
   legacy_onRawData_loop data i s =
     (s\<lparr>trace := trace s @ map Emit
           (delivered (hasErrorListener s)
              (map (\<lambda>j. window_event data (i + 9 * j)) [0..<(length data - i) div 9]))\<rparr>,
      case thrown (hasErrorListener s)
             (map (\<lambda>j. window_event data (i + 9 * j)) [0..<(length data - i) div 9]) of
        Some e \<Rightarrow> Some e
      | None \<Rightarrow> if (length data - i) mod 9 = 0 then None else Some RangeError)"
proof (induction data i s rule: legacy_onRawData_loop.induct)
  case (1 data i s)
  let ?w = "window_event data i"
  let ?rest = "map (\<lambda>j. window_event data (i + 9 + 9 * j)) [0..<(length data - (i + 9)) div 9]"
  show ?case
  proof (cases "i + 9 \<le> length data")
    case False
    have zero: "(length data - i) div 9 = 0" using False by simp
    show ?thesis
    proof (cases "i < length data")
      case True
      have "(length data - i) mod 9 \<noteq> 0" using False True by simp
      then show ?thesis
        by (simp add: legacy_loop_range [OF True False] zero delivered_def thrown_def)
    next
      case False
      then show ?thesis using "1.prems"
        by (simp add: legacy_loop_end delivered_def thrown_def)
    qed
  next
    case True
    have lt: "i < length data" using True by simp
    note ws = windows_from_step [OF True]
    show ?thesis
    proof (cases "is_sample ?w \<or> hasErrorListener s")
      case False
      then have "legacy_onRawData_loop data i s = (s, Some ChecksumMismatch)"
        using legacy_loop_step_throw [OF True] by simp
      then show ?thesis using False
        unfolding ws by (simp add: delivered_def thrown_def)
    next
      case emitted: True
      let ?s1 = "act (Emit ?w) s"
      have e: "emit (checkRecord (u16_at data i, u16_at data (i + 2), u16_at data (i + 4),
                 u16_at data (i + 6), unat (data ! (i + 8)))) s = (?s1, None)"
        using emitted unfolding checkRecord_window by (simp add: emit_window)
      have ih: "legacy_onRawData_loop data (i + 9) ?s1 =
        (?s1\<lparr>trace := trace ?s1 @ map Emit (delivered (hasErrorListener ?s1) ?rest)\<rparr>,
         case thrown (hasErrorListener ?s1) ?rest of
           Some e \<Rightarrow> Some e
         | None \<Rightarrow> if (length data - (i + 9)) mod 9 = 0 then None else Some RangeError)"
        by (rule "1.IH" [OF lt readRecord_complete [OF True] e [symmetric] refl True])
      have l: "hasErrorListener ?s1 = hasErrorListener s" by (simp add: act_def)
      have d: "delivered (hasErrorListener s) (?w # ?rest)
          = ?w # delivered (hasErrorListener s) ?rest"
        using emitted by (auto simp: delivered_def)
      have t: "thrown (hasErrorListener s) (?w # ?rest) = thrown (hasErrorListener s) ?rest"
        using emitted by (auto simp: thrown_def)
      show ?thesis
        unfolding legacy_loop_step_emit [OF True emitted] ih ws l d t mod_step [OF True]
        by (simp add: act_def)
    qed
  qed
qed

lemma legacy_onRawData_result:
  "legacy_onRawData s data =
     (s\<lparr>trace := trace s @ map Emit (delivered (hasErrorListener s) (window_events data))\<rparr>,
      case thrown (hasErrorListener s) (window_events data) of
        Some e \<Rightarrow> Some e
      | None \<Rightarrow> if length data mod 9 = 0 then None else Some RangeError)"
  by (simp add: legacy_onRawData_def legacy_loop_result window_events_def)

subsection \<open>The claims about the decoder\<close>

text \<open>
  C1, as stated, fails on the code when the session has no listener for \<open>error\<close>
  events, which is how the constructor leaves it: at a window with a wrong checksum
  \<open>emit('error', ...)\<close> throws, the exception leaves \<open>_onRawData\<close>, and the
  valid window after it yields no sample.
\<close>

theorem valid_window_after_mismatch_counterexample:
  "9 * 1 + 9 \<le> length [1, 0, 2, 0, 3, 0, 4, 0, 0xFF, 1, 0, 2, 0, 3, 0, 4, 0, 10 :: byte]
   \<and> unat ([1, 0, 2, 0, 3, 0, 4, 0, 0xFF, 1, 0, 2, 0, 3, 0, 4, 0, 10 :: byte] ! (9 * 1 + 8))
       = window_sum [1, 0, 2, 0, 3, 0, 4, 0, 0xFF, 1, 0, 2, 0, 3, 0, 4, 0, 10] (9 * 1) mod 256
   \<and> hasErrorListener example_session = False
   \<and> PenDaq_onRawData example_session [1, 0, 2, 0, 3, 0, 4, 0, 0xFF, 1, 0, 2, 0, 3, 0, 4, 0, 10]
       = (example_session, Some ChecksumMismatch)"
  by (simp add: onRawData_result two_windows window_event_def window_sum_def u16_at_def
      delivered_def thrown_def is_sample_def example_session_def)

text \<open>
  C1, amended: a complete 9-byte window at offset \<open>9 * k\<close> whose ninth byte is the low
  8 bits of the sum of its four 16-bit values makes \<open>_onRawData\<close> emit exactly one
  \<open>data\<close> event for that window, the sample of the four values read little-endian at
  the offsets \<open>9 * k\<close>, \<open>9 * k + 2\<close>, \<open>9 * k + 4\<close> and \<open>9 * k + 6\<close>,
  provided that the session has a listener for \<open>error\<close> events or that no earlier
  window of the buffer has a wrong checksum. The events emitted are those of the first
  windows of the buffer, one for each and in their order, and window \<open>k\<close> is among
  them.
\<close>

theorem valid_window_yields_sample:
  assumes "9 * k + 9 \<le> length data"
    and "unat (data ! (9 * k + 8)) = window_sum data (9 * k) mod 256"
    and "hasErrorListener s
         \<or> (\<forall>j < k. unat (data ! (9 * j + 8)) = window_sum data (9 * j) mod 256)"
  shows "\<exists>evs. fst (PenDaq_onRawData s data) = s\<lparr>trace := trace s @ map Emit evs\<rparr>
           \<and> length evs \<le> length data div 9
           \<and> (\<forall>j < length evs. evs ! j = window_event data (9 * j))
           \<and> k < length evs
           \<and> evs ! k = EData [u16_at data (9 * k), u16_at data (9 * k + 2),
                              u16_at data (9 * k + 4), u16_at data (9 * k + 6)]"
proof -
  let ?ws = "window_events data"
  let ?evs = "delivered (hasErrorListener s) ?ws"
  have k: "k < length ?ws"
    using complete_window_index [OF assms(1)] by (simp add: length_window_events)
  have wk: "?ws ! k = EData [u16_at data (9 * k), u16_at data (9 * k + 2),
                              u16_at data (9 * k + 4), u16_at data (9 * k + 6)]"
    using assms(2) k by (simp add: nth_window_events length_window_events window_event_def)
  have sk: "is_sample (?ws ! k)" unfolding wk by (simp add: is_sample_def)
  have before: "hasErrorListener s \<or> (\<forall>j < k. is_sample (?ws ! j))"
    using assms(3) k
    by (auto simp: nth_window_events length_window_events is_sample_window)
  have reach: "k < length ?evs" by (rule delivered_reaches [OF k before sk])
  have pre: "length ?evs \<le> length ?ws" and same: "\<forall>j < length ?evs. ?evs ! j = ?ws ! j"
    using delivered_prefix [of "hasErrorListener s" ?ws] by simp_all
  have win: "\<forall>j < length ?evs. ?evs ! j = window_event data (9 * j)"
    using same pre by (simp add: nth_window_events length_window_events)
  have "fst (PenDaq_onRawData s data) = s\<lparr>trace := trace s @ map Emit ?evs\<rparr>"
    by (simp add: onRawData_result)
  moreover have "length ?evs \<le> length data div 9"
    using pre by (simp add: length_window_events)
  moreover have "?evs ! k = EData [u16_at data (9 * k), u16_at data (9 * k + 2),
                              u16_at data (9 * k + 4), u16_at data (9 * k + 6)]"
    using same reach wk by simp
  ultimately show ?thesis using win reach by blast
qed

theorem valid_window_yields_sample_witness:
  "\<exists>evs. fst (PenDaq_onRawData example_session
                 [1, 0, 2, 0, 3, 0, 4, 0, 10, 5, 0, 6, 0, 7, 0, 8, 0, 26])
            = example_session\<lparr>trace := trace example_session @ map Emit evs\<rparr>
         \<and> 1 < length evs \<and> evs ! 1 = EData [5, 6, 7, 8]"
proof -
  let ?d = "[1, 0, 2, 0, 3, 0, 4, 0, 10, 5, 0, 6, 0, 7, 0, 8, 0, 26] :: buffer"
  have complete: "9 * 1 + 9 \<le> length ?d" by simp
  have ok: "unat (?d ! (9 * 1 + 8)) = window_sum ?d (9 * 1) mod 256"
    by (simp add: window_sum_def u16_at_def)
  have before: "hasErrorListener example_session
      \<or> (\<forall>j < 1. unat (?d ! (9 * j + 8)) = window_sum ?d (9 * j) mod 256)"
    by (simp add: window_sum_def u16_at_def)
  obtain evs where
    r: "fst (PenDaq_onRawData example_session ?d)
          = example_session\<lparr>trace := trace example_session @ map Emit evs\<rparr>"
    and n: "1 < length evs"
    and e: "evs ! 1 = EData [u16_at ?d (9 * 1), u16_at ?d (9 * 1 + 2),
                             u16_at ?d (9 * 1 + 4), u16_at ?d (9 * 1 + 6)]"
    using valid_window_yields_sample [OF complete ok before] by blast
  have "evs ! 1 = EData [5, 6, 7, 8]" using e by (simp add: u16_at_def)
  with r n show ?thesis by blast
qed

lemma delivered_all:
  "l \<or> list_all is_sample evs \<Longrightarrow> delivered l evs = evs \<and> thrown l evs = None"
  by (auto simp: delivered_def thrown_def list_all_iff takeWhile_eq_all_conv)

lemma onRawData_returns:
  assumes "hasErrorListener s \<or> list_all is_sample (window_events data)"
  shows "PenDaq_onRawData s data = (s\<lparr>trace := trace s @ map Emit (window_events data)\<rparr>, None)"
  using delivered_all [OF assms] by (simp add: onRawData_result)

text \<open>
  C2, as stated, fails on the code when the session has no listener for \<open>error\<close>
  events: for a buffer of two complete windows, the second with a wrong checksum,
  \<open>_onRawData\<close> emits the sample of the first window and is then left by the
  exception that \<open>emit('error', ...)\<close> throws. That is one result, not two, and an
  error. It also fails on the older copy of the decoder, with or without a listener: a
  trailing partial record is not dropped silently there, the read past the end of the
  buffer throws.
\<close>

theorem decoder_count_counterexample:
  "length [1, 0, 2, 0, 3, 0, 4, 0, 10, 1, 0, 2, 0, 3, 0, 4, 0, 0xFF :: byte] div 9 = 2
   \<and> hasErrorListener example_session = False
   \<and> PenDaq_onRawData example_session [1, 0, 2, 0, 3, 0, 4, 0, 10, 1, 0, 2, 0, 3, 0, 4, 0, 0xFF]
       = (example_session\<lparr>trace := [Emit (EData [1, 2, 3, 4])]\<rparr>, Some ChecksumMismatch)
   \<and> legacy_onRawData listening_session [1, 0, 2, 0, 3, 0, 4, 0, 10, 7]
       = (listening_session\<lparr>trace := [Emit (EData [1, 2, 3, 4])]\<rparr>, Some RangeError)"
proof -
  have one: "window_events [1, 0, 2, 0, 3, 0, 4, 0, 10, 7] = [EData [1, 2, 3, 4]]"
    by (simp add: window_events_def window_event_def window_sum_def u16_at_def)
  have "legacy_onRawData listening_session [1, 0, 2, 0, 3, 0, 4, 0, 10, 7]
       = (listening_session\<lparr>trace := [Emit (EData [1, 2, 3, 4])]\<rparr>, Some RangeError)"
    by (simp add: legacy_onRawData_result one delivered_def thrown_def listening_session_def
        example_session_def)
  moreover have "PenDaq_onRawData example_session
        [1, 0, 2, 0, 3, 0, 4, 0, 10, 1, 0, 2, 0, 3, 0, 4, 0, 0xFF]
       = (example_session\<lparr>trace := [Emit (EData [1, 2, 3, 4])]\<rparr>, Some ChecksumMismatch)"
    by (simp add: onRawData_result two_windows window_event_def window_sum_def u16_at_def
        delivered_def thrown_def is_sample_def example_session_def)
  ultimately show ?thesis by (simp add: example_session_def)
qed

text \<open>
  C2, amended: on a session with a listener for \<open>error\<close> events, or for buffers in
  which no complete window has a wrong checksum, \<open>_onRawData\<close> returns normally and
  emits exactly \<open>length data div 9\<close> events, the one of window \<open>k\<close> for the bytes
  from offset \<open>9 * k\<close>, each a sample or a checksum error. The bytes after the last
  complete window produce nothing: the buffer cut after its last complete window has the
  same events. The events depend on the buffer alone, so a second call decodes its own
  buffer from offset 0 whatever the first one left over, and the empty buffer leaves the
  session as it is.
\<close>

theorem decoder_one_event_per_complete_window:
  assumes "hasErrorListener s
           \<or> (list_all is_sample (window_events data) \<and> list_all is_sample (window_events data'))"
  shows "PenDaq_onRawData s data
           = (s\<lparr>trace := trace s @ map Emit (window_events data)\<rparr>, None)
   \<and> length (window_events data) = length data div 9
   \<and> (\<forall>k < length data div 9.
         window_events data ! k = window_event data (9 * k)
         \<and> ((\<exists>v. window_events data ! k = EData v)
              \<or> window_events data ! k = EError ChecksumMismatch))
   \<and> window_events (take (9 * (length data div 9)) data) = window_events data
   \<and> PenDaq_onRawData (fst (PenDaq_onRawData s data)) data'
       = (s\<lparr>trace := trace s @ map Emit (window_events data)
                         @ map Emit (window_events data')\<rparr>, None)
   \<and> PenDaq_onRawData s [] = (s, None)"
proof -
  have a: "hasErrorListener s \<or> list_all is_sample (window_events data)"
    using assms by blast
  note first = onRawData_returns [OF a]
  have kinds: "\<forall>k < length data div 9.
         window_events data ! k = window_event data (9 * k)
         \<and> ((\<exists>v. window_events data ! k = EData v)
              \<or> window_events data ! k = EError ChecksumMismatch)"
    using window_event_kind by (simp add: nth_window_events)
  let ?s1 = "s\<lparr>trace := trace s @ map Emit (window_events data)\<rparr>"
  have b: "hasErrorListener ?s1 \<or> list_all is_sample (window_events data')"
    using assms by auto
  have two: "PenDaq_onRawData (fst (PenDaq_onRawData s data)) data'
       = (s\<lparr>trace := trace s @ map Emit (window_events data)
                         @ map Emit (window_events data')\<rparr>, None)"
    unfolding first using onRawData_returns [OF b] by simp
  have empty: "PenDaq_onRawData s [] = (s, None)"
    by (simp add: onRawData_result window_events_def delivered_def thrown_def)
  show ?thesis
    using first length_window_events kinds window_events_take two empty
    by blast
qed

theorem decoder_one_event_per_complete_window_witness:
  "PenDaq_onRawData listening_session [1, 0, 2, 0, 3, 0, 4, 0, 0xFF, 7, 7, 7]
     = (listening_session\<lparr>trace := [Emit (EError ChecksumMismatch)]\<rparr>, None)
   \<and> window_events (take 9 [1, 0, 2, 0, 3, 0, 4, 0, 0xFF, 7, 7, 7])
       = window_events [1, 0, 2, 0, 3, 0, 4, 0, 0xFF, 7, 7, 7]
   \<and> PenDaq_onRawData listening_session [] = (listening_session, None)"
proof -
  let ?d = "[1, 0, 2, 0, 3, 0, 4, 0, 0xFF, 7, 7, 7] :: buffer"
  have l: "hasErrorListener listening_session
      \<or> (list_all is_sample (window_events ?d) \<and> list_all is_sample (window_events []))"
    by (simp add: listening_session_def)
  have ws: "window_events ?d = [EError ChecksumMismatch]"
    by (simp add: window_events_def window_event_def window_sum_def u16_at_def)
  have t: "trace listening_session = []"
    by (simp add: listening_session_def example_session_def)
  have "PenDaq_onRawData listening_session ?d
     = (listening_session\<lparr>trace := trace listening_session @ map Emit (window_events ?d)\<rparr>, None)"
    and "window_events (take (9 * (length ?d div 9)) ?d) = window_events ?d"
    and "PenDaq_onRawData listening_session [] = (listening_session, None)"
    using decoder_one_event_per_complete_window [OF l] by blast+
  then show ?thesis unfolding ws t by simp
qed

text \<open>
  C3, as stated, fails on the code when the session has no listener for \<open>error\<close>
  events, as after \<open>new PenDaq\<close> and \<open>open()\<close>: the window with the wrong
  checksum makes \<open>emit('error', ...)\<close> throw, no event is delivered, and the valid
  window after it is not decoded.
\<close>

theorem checksum_mismatch_counterexample:
  "9 * 0 + 9 \<le> length [1, 0, 2, 0, 3, 0, 4, 0, 0xFF, 5, 0, 6, 0, 7, 0, 8, 0, 26 :: byte]
   \<and> unat ([1, 0, 2, 0, 3, 0, 4, 0, 0xFF, 5, 0, 6, 0, 7, 0, 8, 0, 26 :: byte] ! (9 * 0 + 8))
       \<noteq> window_sum [1, 0, 2, 0, 3, 0, 4, 0, 0xFF, 5, 0, 6, 0, 7, 0, 8, 0, 26] (9 * 0) mod 256
   \<and> window_event [1, 0, 2, 0, 3, 0, 4, 0, 0xFF, 5, 0, 6, 0, 7, 0, 8, 0, 26] 9 = EData [5, 6, 7, 8]
   \<and> PenDaq_onRawData (PenDaq_open False ok_transport example_session)
        [1, 0, 2, 0, 3, 0, 4, 0, 0xFF, 5, 0, 6, 0, 7, 0, 8, 0, 26]
       = (PenDaq_open False ok_transport example_session, Some ChecksumMismatch)"
  by (simp add: onRawData_result two_windows window_event_def window_sum_def u16_at_def
      delivered_def thrown_def is_sample_def example_session_def PenDaq_open_def open_body_def
      finish_def emitOnce_def emit_def act_def invoke_def ok_transport_def)

text \<open>
  C3, amended: on a session with a listener for \<open>error\<close> events, a complete window
  whose ninth byte differs from the sum of its four values modulo 256 makes
  \<open>_onRawData\<close> emit an \<open>error\<close> event with the checksum error for that window and
  no sample, and the scan goes on: the decoder returns normally with one event per
  complete window, and every later window has the event that its own bytes stand for.
\<close>

theorem checksum_mismatch_does_not_stop_the_scan:
  assumes "hasErrorListener s"
    and "9 * k + 9 \<le> length data"
    and "unat (data ! (9 * k + 8)) \<noteq> window_sum data (9 * k) mod 256"
  shows "\<exists>evs. PenDaq_onRawData s data = (s\<lparr>trace := trace s @ map Emit evs\<rparr>, None)
           \<and> length evs = length data div 9
           \<and> evs ! k = EError ChecksumMismatch
           \<and> (\<forall>j. k < j \<and> j < length data div 9 \<longrightarrow> evs ! j = window_event data (9 * j))"
proof -
  have k: "k < length data div 9" by (rule complete_window_index [OF assms(2)])
  have "window_events data ! k = EError ChecksumMismatch"
    using assms(3) by (simp add: nth_window_events [OF k] window_event_def)
  moreover have "\<forall>j. k < j \<and> j < length data div 9
      \<longrightarrow> window_events data ! j = window_event data (9 * j)"
    by (simp add: nth_window_events)
  moreover have "PenDaq_onRawData s data
      = (s\<lparr>trace := trace s @ map Emit (window_events data)\<rparr>, None)"
    using assms(1) by (intro onRawData_returns) simp
  ultimately show ?thesis
    using length_window_events [of data] by blast
qed

theorem checksum_mismatch_does_not_stop_the_scan_witness:
  "\<exists>evs. PenDaq_onRawData listening_session
            [1, 0, 2, 0, 3, 0, 4, 0, 0xFF, 1, 0, 2, 0, 3, 0, 4, 0, 10]
            = (listening_session\<lparr>trace := trace listening_session @ map Emit evs\<rparr>, None)
         \<and> length evs = 2 \<and> evs ! 0 = EError ChecksumMismatch \<and> evs ! 1 = EData [1, 2, 3, 4]"
proof -
  let ?d = "[1, 0, 2, 0, 3, 0, 4, 0, 0xFF, 1, 0, 2, 0, 3, 0, 4, 0, 10] :: buffer"
  have l: "hasErrorListener listening_session" by (simp add: listening_session_def)
  have complete: "9 * 0 + 9 \<le> length ?d" by simp
  have wrong: "unat (?d ! (9 * 0 + 8)) \<noteq> window_sum ?d (9 * 0) mod 256"
    by (simp add: window_sum_def u16_at_def)
  obtain evs where
    r: "PenDaq_onRawData listening_session ?d
          = (listening_session\<lparr>trace := trace listening_session @ map Emit evs\<rparr>, None)"
    and n: "length evs = length ?d div 9"
    and first: "evs ! 0 = EError ChecksumMismatch"
    and rest: "\<forall>j. 0 < j \<and> j < length ?d div 9 \<longrightarrow> evs ! j = window_event ?d (9 * j)"
    using checksum_mismatch_does_not_stop_the_scan [OF l complete wrong]
    by blast
  have "(0::nat) < 1 \<and> 1 < length ?d div 9" by simp
  with rest have "evs ! 1 = window_event ?d (9 * 1)" by blast
  then have second: "evs ! 1 = EData [1, 2, 3, 4]"
    by (simp add: window_event_def window_sum_def u16_at_def)
  have "length evs = 2" using n by simp
  with r first second show ?thesis by blast
qed

text \<open>
  C9: for every buffer and every session, with or without a listener for \<open>error\<close>
  events, \<open>_onRawData\<close> leaves \<open>_isOpen\<close>, \<open>_isRunning\<close> and
  \<open>_isConnected\<close> (and \<open>_device\<close>) as they were, whether it returns normally or
  is left by the exception of a checksum error, the only one it can throw.
\<close>

theorem decoding_keeps_lifecycle_state:
  "isOpen (fst (PenDaq_onRawData s data)) = isOpen s
   \<and> isRunning (fst (PenDaq_onRawData s data)) = isRunning s
   \<and> isConnected (fst (PenDaq_onRawData s data)) = isConnected s
   \<and> device (fst (PenDaq_onRawData s data)) = device s
   \<and> (snd (PenDaq_onRawData s data) = None
       \<or> snd (PenDaq_onRawData s data) = Some ChecksumMismatch)"
proof -
  let ?s' = "s\<lparr>trace := trace s @
      map Emit (delivered (hasErrorListener s) (window_events data))\<rparr>"
  have "fst (PenDaq_onRawData s data) = ?s'" by (simp add: onRawData_result)
  moreover have "isOpen ?s' = isOpen s" and "isRunning ?s' = isRunning s"
    and "isConnected ?s' = isConnected s" and "device ?s' = device s"
    by simp_all
  moreover have "snd (PenDaq_onRawData s data) = None
       \<or> snd (PenDaq_onRawData s data) = Some ChecksumMismatch"
    by (simp add: onRawData_result thrown_def)
  ultimately show ?thesis by simp
qed

theorem decoding_keeps_lifecycle_state_witness:
  "isOpen (fst (PenDaq_onRawData running_session [1, 0, 2, 0, 3, 0, 4, 0, 0xFF]))
   \<and> isRunning (fst (PenDaq_onRawData running_session [1, 0, 2, 0, 3, 0, 4, 0, 0xFF]))
   \<and> isConnected (fst (PenDaq_onRawData running_session [1, 0, 2, 0, 3, 0, 4, 0, 0xFF]))
   \<and> snd (PenDaq_onRawData running_session [1, 0, 2, 0, 3, 0, 4, 0, 0xFF])
       = Some ChecksumMismatch"
proof -
  have r: "isOpen running_session" "isRunning running_session" "isConnected running_session"
    "\<not> hasErrorListener running_session"
    by (simp_all add: running_session_def PenDaq_start_def PenDaq_open_def start_body_def
        open_body_def finish_def emitOnce_def emit_def act_def invoke_def ok_transport_def
        example_session_def)
  have ws: "window_events [1, 0, 2, 0, 3, 0, 4, 0, 0xFF] = [EError ChecksumMismatch]"
    by (simp add: window_events_def window_event_def window_sum_def u16_at_def)
  have "snd (PenDaq_onRawData running_session [1, 0, 2, 0, 3, 0, 4, 0, 0xFF])
       = Some ChecksumMismatch"
    using r(4) by (simp add: onRawData_result ws thrown_def is_sample_def)
  then show ?thesis
    using decoding_keeps_lifecycle_state [of running_session "[1, 0, 2, 0, 3, 0, 4, 0, 0xFF]"] r
    by simp
qed

section \<open>The session: proofs\<close>

lemmas session_defs =
  PenDaq_open_def PenDaq_start_def PenDaq_stop_def PenDaq_close_def PenDaq_onDisconnect_def
  open_body_def start_body_def stop_body_def close_with_def close_release_def
  callbackError_def emitOnce_def emitError_def finish_def uncaught_def invoke_def emit_def act_def

lemma running_session_eq:
  "running_session = \<lparr>device = example_device, isOpen = True, isRunning = True,
     isConnected = True, hasErrorListener = False,
     trace = [Acquire, Emit EOpen, ControlTransfer 0x21 0x22 3 0, Emit EStart]\<rparr>"
  by (simp add: running_session_def session_defs ok_transport_def example_session_def)

lemma close_body_closed:
  "\<not> isOpen s \<or> \<not> isConnected s \<Longrightarrow>
   close_body tr m1 m2 m3 s = (act (Emit EClose) s, Calls None)"
  by (subst close_body.simps) (simp add: emitOnce_def emit_def)

lemma close_body_idle:
  "isOpen s \<Longrightarrow> isConnected s \<Longrightarrow> \<not> isRunning s \<Longrightarrow>
   close_body tr m1 m2 m3 s = close_release tr m2 m3 s"
  by (subst close_body.simps) simp

lemma close_body_running:
  "isOpen s \<Longrightarrow> isConnected s \<Longrightarrow> isRunning s \<Longrightarrow>
   close_body tr m1 m2 m3 s =
     (case stop_body tr m1 s of
        (s', Calls (Some err)) \<Rightarrow> callbackError err True s'
      | (s', Calls None) \<Rightarrow> close_body tr m1 m2 m3 s'
      | (s', NoCall) \<Rightarrow> (s', NoCall)
      | (s', Throws e) \<Rightarrow> (s', Throws e))"
  by (subst close_body.simps) simp

lemma finish_isConnected: "isConnected (finish cb (s, c)) = isConnected s"
  by (simp add: finish_def invoke_def act_def split: completion.splits)

lemma close_isConnected:
  assumes "isConnected (PenDaq_close cb tr s)"
  shows "isConnected s"
proof (rule ccontr)
  assume n: "\<not> isConnected s"
  then have "close_body tr (\<lambda>s. s) (\<lambda>s. s) (\<lambda>s. s) s = (act (Emit EClose) s, Calls None)"
    by (simp add: close_body_closed)
  then have "isConnected (PenDaq_close cb tr s) = isConnected s"
    by (simp add: PenDaq_close_def close_with_def finish_isConnected act_def)
  then show False using assms n by simp
qed

lemma incomingData_result:
  "incomingData s data =
     (s\<lparr>trace := trace s @ Emit (ERawData data) #
          map Emit (delivered (hasErrorListener s) (window_events data))\<rparr>,
      thrown (hasErrorListener s) (window_events data))"
  by (simp add: incomingData_def emit_def act_def onRawData_result)

lemma apply_operation_isConnected: "isConnected (apply_operation x s) \<Longrightarrow> isConnected s"
proof (cases x)
  case (Close cb tr)
  assume "isConnected (apply_operation x s)"
  then show ?thesis using Close close_isConnected by simp
next
  case (RawData data)
  assume "isConnected (apply_operation x s)"
  then show ?thesis using RawData
    by (simp add: incomingData_result uncaught_def act_def split: option.splits)
qed (auto simp: session_defs split: if_splits option.splits)

lemma run_isConnected: "isConnected (run ops s) \<Longrightarrow> isConnected s"
  by (induction ops arbitrary: s) (auto dest: apply_operation_isConnected)

lemma start_disconnected:
  "\<not> isConnected s \<Longrightarrow>
   PenDaq_start cb tr s =
     s\<lparr>trace := trace s @ (if cb then [Callback (Some (if isOpen s then NotConnected else NotOpen))]
                            else [])\<rparr>"
  by (simp add: session_defs)

lemma stop_disconnected:
  "\<not> isConnected s \<Longrightarrow>
   PenDaq_stop cb tr s =
     s\<lparr>trace := trace s @ (if cb then [Callback (Some (if isOpen s then NotConnected else NotOpen))]
                            else [])\<rparr>"
  by (simp add: session_defs)

text \<open>
  C8: \<open>open()\<close> on a session that is open (running or not) returns the session as it
  is: no event, no error, no callback, no call to the transport. So when a first
  \<open>open()\<close> on a closed, connected session succeeds, it emits one \<open>open\<close> event,
  and a second \<open>open()\<close> right after it adds nothing.
\<close>

theorem open_on_open_session_is_noop:
  "(isOpen s \<longrightarrow> PenDaq_open cb tr s = s)
   \<and> (\<not> isOpen s \<and> isConnected s \<and> acquire tr1 = None \<longrightarrow>
        PenDaq_open cb1 tr1 s =
          s\<lparr>isOpen := True,
            trace := trace s @ [Acquire, Emit EOpen] @ (if cb1 then [Callback None] else [])\<rparr>
        \<and> PenDaq_open cb2 tr2 (PenDaq_open cb1 tr1 s) = PenDaq_open cb1 tr1 s)"
proof -
  have noop: "\<And>cb tr s. isOpen s \<Longrightarrow> PenDaq_open cb tr s = s"
    by (simp add: PenDaq_open_def open_body_def finish_def)
  have first: "PenDaq_open cb1 tr1 s =
          s\<lparr>isOpen := True,
            trace := trace s @ [Acquire, Emit EOpen] @ (if cb1 then [Callback None] else [])\<rparr>"
    if "\<not> isOpen s" and "isConnected s" and "acquire tr1 = None"
    using that by (simp add: session_defs)
  have second: "PenDaq_open cb2 tr2 (PenDaq_open cb1 tr1 s) = PenDaq_open cb1 tr1 s"
    if "\<not> isOpen s" and "isConnected s" and "acquire tr1 = None"
  proof -
    have "isOpen (PenDaq_open cb1 tr1 s)" unfolding first [OF that] by simp
    then show ?thesis by (rule noop)
  qed
  show ?thesis using noop first second by blast
qed

theorem open_on_open_session_is_noop_witness:
  "PenDaq_open True ok_transport running_session = running_session
   \<and> PenDaq_open True ok_transport (PenDaq_open True ok_transport example_session)
       = PenDaq_open True ok_transport example_session
   \<and> trace (PenDaq_open True ok_transport example_session)
       = [Acquire, Emit EOpen, Callback None]"
proof -
  have closed: "\<not> isOpen example_session \<and> isConnected example_session
      \<and> acquire ok_transport = None"
    by (simp add: example_session_def ok_transport_def)
  have "isOpen running_session" by (simp add: running_session_eq)
  then have "PenDaq_open True ok_transport running_session = running_session"
    using open_on_open_session_is_noop [where s = running_session] by blast
  moreover have "PenDaq_open True ok_transport (PenDaq_open True ok_transport example_session)
      = PenDaq_open True ok_transport example_session"
    using closed
      open_on_open_session_is_noop [where s = example_session and ?tr1.0 = ok_transport]
    by blast
  moreover have "trace (PenDaq_open True ok_transport example_session)
      = [Acquire, Emit EOpen, Callback None]"
    by (simp add: session_defs example_session_def ok_transport_def)
  ultimately show ?thesis by blast
qed

text \<open>
  C4, as stated, fails on the code. On a session that was never opened and is then
  disconnected, \<open>open(cb)\<close> returns without any event, error or callback, so it does
  not fail with the not-connected error; and \<open>start(cb)\<close> hands the callback the
  not-open error, because \<open>_isOpen\<close> is tested first.
\<close>

theorem disconnected_operations_counterexample:
  "\<not> isConnected (PenDaq_onDisconnect example_session)
   \<and> PenDaq_open True ok_transport (PenDaq_onDisconnect example_session)
       = PenDaq_onDisconnect example_session
   \<and> trace (PenDaq_onDisconnect example_session) = [Emit EDisconnected]
   \<and> trace (PenDaq_start True ok_transport (PenDaq_onDisconnect example_session))
       = [Emit EDisconnected, Callback (Some NotOpen)]
   \<and> NotOpen \<noteq> NotConnected"
  by (simp add: session_defs example_session_def NotOpen_def NotConnected_def)

text \<open>
  C4, amended: on a disconnected session \<open>open()\<close> returns the session as it is
  (no event, no error, no callback); \<open>start()\<close> and \<open>stop()\<close> change no field,
  issue no control transfer and emit nothing, and hand an error to the callback when one
  was passed: the not-connected error when the session is open, the not-open error when
  it is closed; \<open>close()\<close> emits \<open>close\<close>, calls the callback and changes no
  field.
\<close>

theorem disconnected_operations:
  assumes "\<not> isConnected s"
  shows "PenDaq_open cb tr s = s
    \<and> PenDaq_start cb tr s =
        s\<lparr>trace := trace s @ (if cb then [Callback (Some (if isOpen s then NotConnected else NotOpen))]
                               else [])\<rparr>
    \<and> PenDaq_stop cb tr s =
        s\<lparr>trace := trace s @ (if cb then [Callback (Some (if isOpen s then NotConnected else NotOpen))]
                               else [])\<rparr>
    \<and> PenDaq_close cb tr s =
        s\<lparr>trace := trace s @ [Emit EClose] @ (if cb then [Callback None] else [])\<rparr>"
  using assms
  by (simp add: start_disconnected stop_disconnected PenDaq_open_def open_body_def
      PenDaq_close_def close_with_def close_body_closed finish_def invoke_def act_def)

theorem disconnected_operations_witness:
  "PenDaq_start True ok_transport (PenDaq_onDisconnect running_session)
     = (PenDaq_onDisconnect running_session)
         \<lparr>trace := trace (PenDaq_onDisconnect running_session) @ [Callback (Some NotConnected)]\<rparr>
   \<and> PenDaq_open True ok_transport (PenDaq_onDisconnect running_session)
     = PenDaq_onDisconnect running_session"
  using disconnected_operations [of "PenDaq_onDisconnect running_session" True ok_transport]
  by (simp add: running_session_eq PenDaq_onDisconnect_def uncaught_def emit_def act_def)

lemma data_actions_window_events: "list_all is_data_action (map Emit (window_events data))"
proof -
  have "\<And>i. is_data_action (Emit (window_event data i))"
    by (simp add: is_data_action_def window_event_def)
  then show ?thesis by (simp add: list_all_iff window_events_def)
qed

lemma apply_RawData_returning:
  assumes "hasErrorListener s \<or> list_all is_sample (window_events d)"
  shows "apply_operation (RawData d) s =
           s\<lparr>trace := trace s @ Emit (ERawData d) # map Emit (window_events d)\<rparr>"
  using delivered_all [OF assms] by (simp add: incomingData_result uncaught_def)

text \<open>
  Handlers of incoming data that return normally change no field of the session but the
  trace, to which they add their events.
\<close>

lemma run_data:
  assumes "\<forall>x \<in> set g. \<exists>d. x = RawData d
             \<and> (hasErrorListener s \<or> list_all is_sample (window_events d))"
  shows "\<exists>t. run g s = s\<lparr>trace := trace s @ t\<rparr> \<and> list_all is_data_action t"
  using assms
proof (induction g arbitrary: s)
  case Nil
  have "run [] s = s\<lparr>trace := trace s @ []\<rparr>" and "list_all is_data_action []"
    by simp_all
  then show ?case by blast
next
  case (Cons x g)
  then obtain d where x: "x = RawData d"
    and ok: "hasErrorListener s \<or> list_all is_sample (window_events d)"
    by auto
  let ?t0 = "Emit (ERawData d) # map Emit (window_events d)"
  let ?s1 = "s\<lparr>trace := trace s @ ?t0\<rparr>"
  have step: "apply_operation x s = ?s1"
    unfolding x by (rule apply_RawData_returning [OF ok])
  have "\<forall>y \<in> set g. \<exists>d. y = RawData d
             \<and> (hasErrorListener ?s1 \<or> list_all is_sample (window_events d))"
    using Cons.prems by simp
  then obtain t where t: "run g ?s1 = ?s1\<lparr>trace := trace ?s1 @ t\<rparr>"
    and ta: "list_all is_data_action t"
    using Cons.IH by blast
  have t0: "list_all is_data_action ?t0"
    using data_actions_window_events [of d] by (simp add: is_data_action_def)
  have "run (x # g) s = s\<lparr>trace := trace s @ (?t0 @ t)\<rparr>"
    using step t by simp
  moreover have "list_all is_data_action (?t0 @ t)"
    using t0 ta by simp
  ultimately show ?case by blast
qed

text \<open>
  C5, as stated, fails on the code in two ways. When the running session has been
  disconnected before the call, \<open>close()\<close> emits \<open>close\<close> at once, with no
  \<open>stop\<close> event before it, and \<open>_isOpen\<close> and \<open>_isRunning\<close> stay true. When
  the session is connected at the call and the detach arrives while the control transfer
  of \<open>stop\<close> is pending, the second \<open>close\<close>, called when the transfer has
  completed, finds the session disconnected: \<open>stop\<close> and \<open>close\<close> are emitted,
  nothing is released, and \<open>_isOpen\<close> stays true.
\<close>

theorem close_while_running_counterexample:
  "isOpen (PenDaq_onDisconnect running_session)
   \<and> isRunning (PenDaq_onDisconnect running_session)
   \<and> PenDaq_close True ok_transport (PenDaq_onDisconnect running_session)
       = \<lparr>device = example_device, isOpen = True, isRunning = True, isConnected = False,
          hasErrorListener = False,
          trace = [Acquire, Emit EOpen, ControlTransfer 0x21 0x22 3 0, Emit EStart,
                   Emit EDisconnected, Emit EClose, Callback None]\<rparr>
   \<and> isOpen running_session \<and> isRunning running_session \<and> isConnected running_session
   \<and> close_with True ok_transport (run [Disconnect]) (run []) (run []) running_session
       = \<lparr>device = example_device, isOpen = True, isRunning = False, isConnected = False,
          hasErrorListener = False,
          trace = [Acquire, Emit EOpen, ControlTransfer 0x21 0x22 3 0, Emit EStart,
                   ControlTransfer 0x21 0x22 0 0, Emit EDisconnected, Emit EStop,
                   Emit EClose, Callback None]\<rparr>"
proof -
  let ?s = "running_session"
  let ?d = "PenDaq_onDisconnect ?s"
  have d: "?d = \<lparr>device = example_device, isOpen = True, isRunning = True, isConnected = False,
          hasErrorListener = False,
          trace = [Acquire, Emit EOpen, ControlTransfer 0x21 0x22 3 0, Emit EStart,
                   Emit EDisconnected]\<rparr>"
    by (simp add: running_session_eq PenDaq_onDisconnect_def uncaught_def emit_def act_def)
  have first: "PenDaq_close True ok_transport ?d
       = \<lparr>device = example_device, isOpen = True, isRunning = True, isConnected = False,
          hasErrorListener = False,
          trace = [Acquire, Emit EOpen, ControlTransfer 0x21 0x22 3 0, Emit EStart,
                   Emit EDisconnected, Emit EClose, Callback None]\<rparr>"
    unfolding d
    by (simp add: PenDaq_close_def close_with_def close_body_closed finish_def invoke_def act_def)
  let ?s1 = "\<lparr>device = example_device, isOpen = True, isRunning = False, isConnected = False,
          hasErrorListener = False,
          trace = [Acquire, Emit EOpen, ControlTransfer 0x21 0x22 3 0, Emit EStart,
                   ControlTransfer 0x21 0x22 0 0, Emit EDisconnected, Emit EStop]\<rparr>"
  have stop: "stop_body ok_transport (run [Disconnect]) ?s = (?s1, Calls None)"
    by (simp add: running_session_eq stop_body_def ok_transport_def PenDaq_onDisconnect_def
        uncaught_def emitOnce_def emit_def act_def)
  have o: "isOpen ?s" and c: "isConnected ?s" and r: "isRunning ?s"
    by (simp_all add: running_session_eq)
  have "close_body ok_transport (run [Disconnect]) (run []) (run []) ?s
      = close_body ok_transport (run [Disconnect]) (run []) (run []) ?s1"
    by (simp add: close_body_running [OF o c r] stop)
  also have "\<dots> = (act (Emit EClose) ?s1, Calls None)"
    by (rule close_body_closed) simp
  finally have race: "close_with True ok_transport (run [Disconnect]) (run []) (run []) ?s
       = \<lparr>device = example_device, isOpen = True, isRunning = False, isConnected = False,
          hasErrorListener = False,
          trace = [Acquire, Emit EOpen, ControlTransfer 0x21 0x22 3 0, Emit EStart,
                   ControlTransfer 0x21 0x22 0 0, Emit EDisconnected, Emit EStop,
                   Emit EClose, Callback None]\<rparr>"
    by (simp add: close_with_def finish_def invoke_def act_def)
  have "isOpen ?d" and "isRunning ?d" unfolding d by simp_all
  with first race o c r show ?thesis by blast
qed

text \<open>
  C5, amended: when \<open>close()\<close> is called on a session that is open, running and
  connected, the transport calls succeed, and until \<open>close\<close> has completed nothing
  happens to the session but incoming data whose handler returns normally (no detach, no
  other call), then the session issues the control transfer that deasserts the carrier,
  emits \<open>stop\<close>, releases both interfaces, closes the device and emits \<open>close\<close>,
  in this order, with only events of incoming data in between; afterwards \<open>_isOpen\<close>
  and \<open>_isRunning\<close> are false.
\<close>

theorem close_while_running:
  assumes "isOpen s" and "isRunning s" and "isConnected s"
    and "controlTransfer tr = None" and "release_data_throw tr = None"
    and "release_data tr = None" and "release_ctl tr = None" and "device_close tr = None"
    and "\<forall>x \<in> set (g1 @ g2 @ g3). \<exists>d. x = RawData d
           \<and> (hasErrorListener s \<or> list_all is_sample (window_events d))"
  shows "\<exists>t1 t2 t3.
    close_with cb tr (run g1) (run g2) (run g3) s =
      s\<lparr>isOpen := False, isRunning := False,
        trace := trace s @ [ControlTransfer 0x21 0x22 0 0] @ t1 @ [Emit EStop, ReleaseData] @ t2
                   @ [ReleaseCtl] @ t3 @ [DeviceClose, Emit EClose]
                   @ (if cb then [Callback None] else [])\<rparr>
    \<and> list_all is_data_action (t1 @ t2 @ t3)"
proof -
  let ?a = "s\<lparr>trace := trace s @ [ControlTransfer 0x21 0x22 0 0]\<rparr>"
  have "\<forall>x \<in> set g1. \<exists>d. x = RawData d
           \<and> (hasErrorListener ?a \<or> list_all is_sample (window_events d))"
    using assms(9) by simp
  then obtain t1 where r1: "run g1 ?a = ?a\<lparr>trace := trace ?a @ t1\<rparr>"
    and d1: "list_all is_data_action t1"
    using run_data by blast
  let ?s1 = "s\<lparr>isRunning := False,
     trace := trace s @ [ControlTransfer 0x21 0x22 0 0] @ t1 @ [Emit EStop]\<rparr>"
  have stop: "stop_body tr (run g1) s = (?s1, Calls None)"
    using assms(1,3,4) by (simp add: stop_body_def act_def r1 emitOnce_def emit_def)
  have o1: "isOpen ?s1" and c1: "isConnected ?s1" and n1: "\<not> isRunning ?s1"
    using assms(1,3) by simp_all
  let ?b = "?s1\<lparr>trace := trace ?s1 @ [ReleaseData]\<rparr>"
  have "\<forall>x \<in> set g2. \<exists>d. x = RawData d
           \<and> (hasErrorListener ?b \<or> list_all is_sample (window_events d))"
    using assms(9) by simp
  then obtain t2 where r2: "run g2 ?b = ?b\<lparr>trace := trace ?b @ t2\<rparr>"
    and d2: "list_all is_data_action t2"
    using run_data by blast
  let ?c = "?b\<lparr>trace := trace ?b @ t2 @ [ReleaseCtl]\<rparr>"
  have "\<forall>x \<in> set g3. \<exists>d. x = RawData d
           \<and> (hasErrorListener ?c \<or> list_all is_sample (window_events d))"
    using assms(9) by simp
  then obtain t3 where r3: "run g3 ?c = ?c\<lparr>trace := trace ?c @ t3\<rparr>"
    and d3: "list_all is_data_action t3"
    using run_data by blast
  have rel: "close_release tr (run g2) (run g3) ?s1 =
      (s\<lparr>isOpen := False, isRunning := False,
         trace := trace s @ [ControlTransfer 0x21 0x22 0 0] @ t1 @ [Emit EStop, ReleaseData] @ t2
                   @ [ReleaseCtl] @ t3 @ [DeviceClose, Emit EClose]\<rparr>, Calls None)"
    using assms(5,6,7,8)
    by (simp add: close_release_def Let_def act_def r2 [simplified] r3 [simplified]
        emitOnce_def emit_def)
  have "close_body tr (run g1) (run g2) (run g3) s
      = close_body tr (run g1) (run g2) (run g3) ?s1"
    using assms(1,2,3) by (simp add: close_body_running stop)
  also have "\<dots> = close_release tr (run g2) (run g3) ?s1"
    by (rule close_body_idle [OF o1 c1 n1])
  also note rel
  finally have body: "close_body tr (run g1) (run g2) (run g3) s =
      (s\<lparr>isOpen := False, isRunning := False,
         trace := trace s @ [ControlTransfer 0x21 0x22 0 0] @ t1 @ [Emit EStop, ReleaseData] @ t2
                   @ [ReleaseCtl] @ t3 @ [DeviceClose, Emit EClose]\<rparr>, Calls None)" .
  have "close_with cb tr (run g1) (run g2) (run g3) s =
      s\<lparr>isOpen := False, isRunning := False,
        trace := trace s @ [ControlTransfer 0x21 0x22 0 0] @ t1 @ [Emit EStop, ReleaseData] @ t2
                   @ [ReleaseCtl] @ t3 @ [DeviceClose, Emit EClose]
                   @ (if cb then [Callback None] else [])\<rparr>"
    unfolding close_with_def body by (simp add: finish_def invoke_def act_def)
  moreover have "list_all is_data_action (t1 @ t2 @ t3)"
    using d1 d2 d3 by simp
  ultimately show ?thesis by blast
qed

theorem close_while_running_witness:
  "(\<exists>t1 t2 t3.
      close_with True ok_transport (run [RawData [1, 0, 2, 0, 3, 0, 4, 0, 10]]) (run []) (run [])
        running_session =
      running_session\<lparr>isOpen := False, isRunning := False,
        trace := trace running_session @ [ControlTransfer 0x21 0x22 0 0] @ t1
                   @ [Emit EStop, ReleaseData] @ t2 @ [ReleaseCtl] @ t3
                   @ [DeviceClose, Emit EClose] @ (if True then [Callback None] else [])\<rparr>
      \<and> list_all is_data_action (t1 @ t2 @ t3))
   \<and> close_with True ok_transport (run [RawData [1, 0, 2, 0, 3, 0, 4, 0, 10]]) (run []) (run [])
        running_session
     = \<lparr>device = example_device, isOpen = False, isRunning = False, isConnected = True,
        hasErrorListener = False,
        trace = [Acquire, Emit EOpen, ControlTransfer 0x21 0x22 3 0, Emit EStart,
                 ControlTransfer 0x21 0x22 0 0,
                 Emit (ERawData [1, 0, 2, 0, 3, 0, 4, 0, 10]), Emit (EData [1, 2, 3, 4]),
                 Emit EStop, ReleaseData, ReleaseCtl, DeviceClose, Emit EClose,
                 Callback None]\<rparr>"
proof -
  let ?d = "[1, 0, 2, 0, 3, 0, 4, 0, 10] :: buffer"
  have ws: "window_events ?d = [EData [1, 2, 3, 4]]"
    by (simp add: window_events_def window_event_def window_sum_def u16_at_def)
  have o: "isOpen running_session" and r: "isRunning running_session"
    and c: "isConnected running_session"
    by (simp_all add: running_session_eq)
  have tr: "controlTransfer ok_transport = None" "release_data_throw ok_transport = None"
    "release_data ok_transport = None" "release_ctl ok_transport = None"
    "device_close ok_transport = None"
    by (simp_all add: ok_transport_def)
  have g: "\<forall>x \<in> set ([RawData ?d] @ [] @ []). \<exists>d. x = RawData d
           \<and> (hasErrorListener running_session \<or> list_all is_sample (window_events d))"
    by (simp add: ws is_sample_def)
  note general = close_while_running [OF o r c tr g, of True]
  have stop: "stop_body ok_transport (run [RawData ?d]) running_session =
      (running_session\<lparr>isRunning := False,
         trace := trace running_session @ [ControlTransfer 0x21 0x22 0 0,
          Emit (ERawData ?d), Emit (EData [1, 2, 3, 4]), Emit EStop]\<rparr>, Calls None)"
    using o c
    by (simp add: stop_body_def tr act_def Let_def incomingData_result uncaught_def ws
        delivered_def thrown_def is_sample_def emitOnce_def emit_def)
  have "close_body ok_transport (run [RawData ?d]) (run []) (run []) running_session
      = close_body ok_transport (run [RawData ?d]) (run []) (run [])
          (running_session\<lparr>isRunning := False,
             trace := trace running_session @ [ControlTransfer 0x21 0x22 0 0,
               Emit (ERawData ?d), Emit (EData [1, 2, 3, 4]), Emit EStop]\<rparr>)"
    by (simp add: close_body_running [OF o c r] stop)
  also have "\<dots> = close_release ok_transport (run []) (run [])
          (running_session\<lparr>isRunning := False,
             trace := trace running_session @ [ControlTransfer 0x21 0x22 0 0,
               Emit (ERawData ?d), Emit (EData [1, 2, 3, 4]), Emit EStop]\<rparr>)"
    using o c by (intro close_body_idle) simp_all
  finally have "close_with True ok_transport (run [RawData ?d]) (run []) (run []) running_session
     = \<lparr>device = example_device, isOpen = False, isRunning = False, isConnected = True,
        hasErrorListener = False,
        trace = [Acquire, Emit EOpen, ControlTransfer 0x21 0x22 3 0, Emit EStart,
                 ControlTransfer 0x21 0x22 0 0,
                 Emit (ERawData ?d), Emit (EData [1, 2, 3, 4]),
                 Emit EStop, ReleaseData, ReleaseCtl, DeviceClose, Emit EClose,
                 Callback None]\<rparr>"
    unfolding close_with_def
    by (simp add: close_release_def tr Let_def emitOnce_def emit_def finish_def invoke_def
        act_def running_session_eq)
  with general show ?thesis by blast
qed

text \<open>
  C10: a new session is connected; no sequence of \<open>open\<close>, \<open>start\<close>, \<open>stop\<close>,
  \<open>close\<close>, incoming data and \<open>_onDisconnect\<close> turns \<open>_isConnected\<close> from false
  to true; so after \<open>_onDisconnect\<close> and any such sequence the session is still
  disconnected, and \<open>start()\<close> and \<open>stop()\<close> on it fail: they change no field,
  issue no control transfer, emit no \<open>start\<close> or \<open>stop\<close> event, and hand an error
  to the callback when one was passed.
\<close>

theorem disconnection_is_permanent:
  "(new_PenDaq dev = Inr s0 \<longrightarrow> isConnected s0)
   \<and> (isConnected (run ops s) \<longrightarrow> isConnected s)
   \<and> \<not> isConnected (run ops (PenDaq_onDisconnect s))
   \<and> PenDaq_start cb tr (run ops (PenDaq_onDisconnect s)) =
       (run ops (PenDaq_onDisconnect s))
         \<lparr>trace := trace (run ops (PenDaq_onDisconnect s)) @
            (if cb then [Callback (Some (if isOpen (run ops (PenDaq_onDisconnect s))
                                         then NotConnected else NotOpen))] else [])\<rparr>
   \<and> PenDaq_stop cb tr (run ops (PenDaq_onDisconnect s)) =
       (run ops (PenDaq_onDisconnect s))
         \<lparr>trace := trace (run ops (PenDaq_onDisconnect s)) @
            (if cb then [Callback (Some (if isOpen (run ops (PenDaq_onDisconnect s))
                                         then NotConnected else NotOpen))] else [])\<rparr>"
proof -
  have new: "new_PenDaq dev = Inr s0 \<longrightarrow> isConnected s0"
    by (auto simp: new_PenDaq_def split: if_splits)
  have "\<not> isConnected (PenDaq_onDisconnect s)"
    by (simp add: PenDaq_onDisconnect_def uncaught_def emit_def act_def)
  then have gone: "\<not> isConnected (run ops (PenDaq_onDisconnect s))"
    using run_isConnected by blast
  show ?thesis
    using new run_isConnected [of ops s] gone start_disconnected [OF gone]
      stop_disconnected [OF gone]
    by blast
qed

theorem disconnection_is_permanent_witness:
  "\<not> isConnected (run [Open True ok_transport, Start True ok_transport]
                    (PenDaq_onDisconnect example_session))
   \<and> trace (PenDaq_start True ok_transport
        (run [Open True ok_transport, Start True ok_transport]
           (PenDaq_onDisconnect example_session)))
     = [Emit EDisconnected, Callback (Some NotOpen), Callback (Some NotOpen)]"
  using disconnection_is_permanent
    [of example_device example_session "[Open True ok_transport, Start True ok_transport]"
        example_session True ok_transport]
  by (simp add: session_defs example_session_def)

section \<open>The registry: proofs\<close>

lemmas registry_defs =
  checkNewDevice_def checkRemoveDevice_def matchVidPid_def matchDeviceAddresses_def
  new_PenDaq_def array_get_def splice1_def empty_registry_def

lemma attach_all_append:
  "attach_all ids reg (xs @ ys) =
     (case attach_all ids reg xs of Inl e \<Rightarrow> Inl e | Inr r \<Rightarrow> attach_all ids r ys)"
  by (induction xs arbitrary: reg) (auto split: sum.splits)

lemma findDevice_None_iff:
  "findDevice st hs dev i = None \<longleftrightarrow>
     (\<forall>h \<in> set hs. \<not> matchDeviceAddresses (Some (device (st ! h))) (Some dev))"
  by (induction hs arbitrary: i) auto

lemma match_at_address:
  "busNumber dev \<noteq> 0 \<Longrightarrow> deviceAddress dev \<noteq> 0 \<Longrightarrow>
   matchDeviceAddresses (Some (device (st ! h))) (Some dev)
     = at_address (busNumber dev) (deviceAddress dev) st h"
  by (auto simp: matchDeviceAddresses_def at_address_def)

lemma findDevice_tracked:
  assumes "busNumber dev \<noteq> 0" and "deviceAddress dev \<noteq> 0"
  shows "findDevice (store reg) (devices reg) dev 0 = None \<longleftrightarrow>
           tracked_at (busNumber dev) (deviceAddress dev) reg = []"
  by (simp add: findDevice_None_iff match_at_address [OF assms] tracked_at_def filter_empty_conv)

lemma checkNewDevice_cases:
  "checkNewDevice ids reg devo =
     Inr (case devo of None \<Rightarrow> reg | Some d \<Rightarrow>
            if accepted ids d \<and> findDevice (store reg) (devices reg) d 0 = None
            then reg\<lparr>store := store reg @
                        [\<lparr>device = d, isOpen = False, isRunning = False, isConnected = True,
                          hasErrorListener = False, trace = []\<rparr>],
                      devices := devices reg @ [length (store reg)],
                      ee := ee reg @ [Connected (Some (length (store reg)))]\<rparr>
            else reg)"
  by (auto simp: checkNewDevice_def accepted_def new_PenDaq_def split: option.splits)

lemma at_address_append:
  "h < length st \<Longrightarrow> at_address b a (st @ [p]) h = at_address b a st h"
  by (simp add: at_address_def nth_append)

lemma at_address_new:
  "at_address b a (st @ [p]) (length st) = (busNumber (device p) = b \<and> deviceAddress (device p) = a)"
  by (simp add: at_address_def)

lemma tracked_at_added:
  assumes "handles_ok reg"
  shows "tracked_at b a (reg\<lparr>store := store reg @ [p],
                             devices := devices reg @ [length (store reg)],
                             ee := ee reg @ [Connected (Some (length (store reg)))]\<rparr>)
         = tracked_at b a reg @
             (if busNumber (device p) = b \<and> deviceAddress (device p) = a
              then [length (store reg)] else [])"
proof -
  have "filter (at_address b a (store reg @ [p])) (devices reg)
      = filter (at_address b a (store reg)) (devices reg)"
    using assms by (intro filter_cong) (auto simp: handles_ok_def at_address_append)
  then show ?thesis by (simp add: tracked_at_def at_address_new)
qed

lemma connected_at_added:
  assumes "handles_ok reg"
  shows "connected_at b a (reg\<lparr>store := store reg @ [p],
                             devices := devices reg @ [length (store reg)],
                             ee := ee reg @ [Connected (Some (length (store reg)))]\<rparr>)
         = connected_at b a reg @
             (if busNumber (device p) = b \<and> deviceAddress (device p) = a
              then [Connected (Some (length (store reg)))] else [])"
proof -
  have "filter (\<lambda>e. case e of Connected (Some h) \<Rightarrow> at_address b a (store reg @ [p]) h
                                | _ \<Rightarrow> False) (ee reg)
      = filter (\<lambda>e. case e of Connected (Some h) \<Rightarrow> at_address b a (store reg) h
                                | _ \<Rightarrow> False) (ee reg)"
    using assms
    by (intro filter_cong)
       (auto simp: handles_ok_def at_address_append split: registry_event.splits option.splits)
  then show ?thesis by (simp add: connected_at_def at_address_new)
qed

lemma handles_ok_added:
  assumes "handles_ok reg"
  shows "handles_ok (reg\<lparr>store := store reg @ [p],
                         devices := devices reg @ [length (store reg)],
                         ee := ee reg @ [Connected (Some (length (store reg)))]\<rparr>)"
  using assms
  by (fastforce simp: handles_ok_def split: registry_event.splits option.splits)

lemma checkNewDevice_step:
  assumes ok: "handles_ok reg" and b: "b \<noteq> 0" and a: "a \<noteq> 0"
  shows "\<exists>reg'. checkNewDevice ids reg devo = Inr reg' \<and> handles_ok reg'
     \<and> (if (\<exists>d. devo = Some d \<and> accepted ids d \<and> busNumber d = b \<and> deviceAddress d = a)
            \<and> tracked_at b a reg = []
         then length (tracked_at b a reg') = 1
              \<and> length (connected_at b a reg') = Suc (length (connected_at b a reg))
         else length (tracked_at b a reg') = length (tracked_at b a reg)
              \<and> length (connected_at b a reg') = length (connected_at b a reg))"
proof (cases devo)
  case None
  then show ?thesis using ok by (simp add: checkNewDevice_cases)
next
  case (Some d)
  show ?thesis
  proof (cases "accepted ids d \<and> findDevice (store reg) (devices reg) d 0 = None")
    case False
    have "\<not> (accepted ids d \<and> busNumber d = b \<and> deviceAddress d = a \<and> tracked_at b a reg = [])"
      using False findDevice_tracked [of d reg] b a by auto
    then show ?thesis using False Some ok by (auto simp: checkNewDevice_cases)
  next
    case True
    have here: "busNumber d = b \<and> deviceAddress d = a \<Longrightarrow> tracked_at b a reg = []"
      using True findDevice_tracked [of d reg] b a by auto
    show ?thesis
      using True Some here
      by (auto simp: checkNewDevice_cases tracked_at_added [OF ok] connected_at_added [OF ok]
          handles_ok_added [OF ok])
  qed
qed

lemma attach_all_counts:
  assumes "b \<noteq> 0" and "a \<noteq> 0"
  shows "handles_ok reg \<Longrightarrow> length (tracked_at b a reg) = length (connected_at b a reg) \<Longrightarrow>
     length (tracked_at b a reg) \<le> 1 \<Longrightarrow>
     \<exists>reg'. attach_all ids reg devs = Inr reg' \<and> handles_ok reg'
       \<and> length (tracked_at b a reg') = length (connected_at b a reg')
       \<and> length (tracked_at b a reg') =
           (if tracked_at b a reg \<noteq> []
               \<or> (\<exists>d. Some d \<in> set devs \<and> accepted ids d \<and> busNumber d = b \<and> deviceAddress d = a)
            then 1 else 0)"
proof (induction devs arbitrary: reg)
  case Nil
  then show ?case by (cases "tracked_at b a reg") auto
next
  case (Cons devo devs)
  obtain reg1 where r1: "checkNewDevice ids reg devo = Inr reg1" and ok1: "handles_ok reg1"
    and st: "if (\<exists>d. devo = Some d \<and> accepted ids d \<and> busNumber d = b \<and> deviceAddress d = a)
            \<and> tracked_at b a reg = []
         then length (tracked_at b a reg1) = 1
              \<and> length (connected_at b a reg1) = Suc (length (connected_at b a reg))
         else length (tracked_at b a reg1) = length (tracked_at b a reg)
              \<and> length (connected_at b a reg1) = length (connected_at b a reg)"
    using checkNewDevice_step [OF Cons.prems(1) assms, of ids devo] by blast
  show ?case
  proof (cases "(\<exists>d. devo = Some d \<and> accepted ids d \<and> busNumber d = b \<and> deviceAddress d = a)
            \<and> tracked_at b a reg = []")
    case True
    then have t1: "length (tracked_at b a reg1) = 1"
      and c1: "length (connected_at b a reg1) = Suc (length (connected_at b a reg))"
      using st by simp_all
    have c0: "length (connected_at b a reg) = 0"
      using True Cons.prems(2) by simp
    have eq1: "length (tracked_at b a reg1) = length (connected_at b a reg1)"
      using t1 c1 c0 by simp
    have ne: "tracked_at b a reg1 \<noteq> []" using t1 by auto
    obtain reg' where "attach_all ids reg1 devs = Inr reg'" "handles_ok reg'"
      "length (tracked_at b a reg') = length (connected_at b a reg')"
      "length (tracked_at b a reg') = 1"
      using Cons.IH [OF ok1 eq1] t1 ne by auto
    then show ?thesis using r1 True by auto
  next
    case False
    then have t1: "length (tracked_at b a reg1) = length (tracked_at b a reg)"
      and c1: "length (connected_at b a reg1) = length (connected_at b a reg)"
      using st by simp_all
    have eq1: "length (tracked_at b a reg1) = length (connected_at b a reg1)"
      using t1 c1 Cons.prems(2) by simp
    have le1: "length (tracked_at b a reg1) \<le> 1" using t1 Cons.prems(3) by simp
    have same: "tracked_at b a reg1 \<noteq> [] \<longleftrightarrow> tracked_at b a reg \<noteq> []"
      using t1 by (metis length_0_conv)
    obtain reg' where r': "attach_all ids reg1 devs = Inr reg'" "handles_ok reg'"
      "length (tracked_at b a reg') = length (connected_at b a reg')"
      and cnt: "length (tracked_at b a reg') =
           (if tracked_at b a reg1 \<noteq> []
               \<or> (\<exists>d. Some d \<in> set devs \<and> accepted ids d \<and> busNumber d = b \<and> deviceAddress d = a)
            then 1 else 0)"
      using Cons.IH [OF ok1 eq1 le1] by auto
    have "(tracked_at b a reg \<noteq> []
               \<or> (\<exists>d. Some d \<in> set (devo # devs) \<and> accepted ids d \<and> busNumber d = b \<and> deviceAddress d = a))
       \<longleftrightarrow> (tracked_at b a reg1 \<noteq> []
               \<or> (\<exists>d. Some d \<in> set devs \<and> accepted ids d \<and> busNumber d = b \<and> deviceAddress d = a))"
      using False same by auto
    then show ?thesis using r1 r' cnt by auto
  qed
qed

lemma handles_ok_empty: "handles_ok empty_registry"
  by (simp add: handles_ok_def empty_registry_def)

lemma counts_empty:
  "tracked_at b a empty_registry = []" "connected_at b a empty_registry = []"
  by (simp_all add: tracked_at_def connected_at_def empty_registry_def)

lemma checkNewDevice_tracked:
  assumes "busNumber d \<noteq> 0" and "deviceAddress d \<noteq> 0"
    and "tracked_at (busNumber d) (deviceAddress d) reg \<noteq> []"
  shows "checkNewDevice ids reg (Some d) = Inr reg"
  using assms findDevice_tracked [of d reg] by (simp add: checkNewDevice_cases)


text \<open>
  What \<open>checkRemoveDevice\<close> does when the loop finds an entry at index \<open>i\<close>: the
  session of that entry is disconnected, the entry is removed, and the event carries
  \<open>devices[i]\<close> as read after the removal, which is the entry that followed the removed
  one, or \<open>undefined\<close>.
\<close>

lemma findDevice_Some_range:
  "findDevice st hs dev k = Some i \<Longrightarrow> k \<le> i \<and> i < k + length hs"
  by (induction hs arbitrary: k) (fastforce split: if_splits)+

lemma findDevice_Some_match:
  "findDevice st hs dev k = Some i \<Longrightarrow>
   matchDeviceAddresses (Some (device (st ! (hs ! (i - k))))) (Some dev)"
proof (induction hs arbitrary: k)
  case Nil
  then show ?case by simp
next
  case (Cons h hs)
  show ?case
  proof (cases "matchDeviceAddresses (Some (device (st ! h))) (Some dev)")
    case True
    then show ?thesis using Cons.prems by simp
  next
    case False
    then have f: "findDevice st hs dev (Suc k) = Some i" using Cons.prems by simp
    then have "Suc k \<le> i" using findDevice_Some_range by blast
    then have "i - k = Suc (i - Suc k)" by simp
    then show ?thesis using Cons.IH [OF f] by simp
  qed
qed

lemma array_get_splice1:
  "i < length xs \<Longrightarrow>
   array_get (splice1 xs i) i = (if Suc i < length xs then Some (xs ! Suc i) else None)"
  by (auto simp: array_get_def splice1_def nth_append min_def)

lemma checkRemoveDevice_found:
  assumes "deviceDescriptor dev \<noteq> None"
    and "findDevice (store reg) (devices reg) dev 0 = Some i"
  shows "checkRemoveDevice reg (Some dev) =
     reg\<lparr>store := (store reg)[devices reg ! i :=
                       PenDaq_onDisconnect (store reg ! (devices reg ! i))],
         devices := take i (devices reg) @ drop (Suc i) (devices reg),
         ee := ee reg @ [Disconnected (if Suc i < length (devices reg)
                                       then Some (devices reg ! Suc i) else None)]\<rparr>"
proof -
  have i: "i < length (devices reg)" using findDevice_Some_range [OF assms(2)] by simp
  obtain y where y: "deviceDescriptor dev = Some y" using assms(1) by auto
  show ?thesis
    by (simp add: checkRemoveDevice_def Let_def array_get_splice1 [OF i] y assms(2))
       (simp add: splice1_def)
qed


lemma handles_ok_removed:
  assumes "handles_ok reg"
  shows "handles_ok (checkRemoveDevice reg devo)"
proof -
  have sub: "\<And>i. set (splice1 (devices reg) i) \<subseteq> set (devices reg)"
    by (auto simp: splice1_def dest: in_set_takeD in_set_dropD)
  show ?thesis
    using assms sub
    by (auto simp: checkRemoveDevice_def handles_ok_def Let_def
        split: option.splits registry_event.splits)
qed

text \<open>
  C6: on a detach notification that matches a tracked entry, the session of the entry is
  marked disconnected through \<open>_onDisconnect\<close> and the entry is removed, but the
  \<open>disconnected\<close> event does not carry the removed session. With one tracked session
  the event carries \<open>undefined\<close>; with two, detaching the first makes the event carry
  the second session, which stays tracked and connected.
\<close>

theorem detach_event_carries_wrong_session:
  "attach_all example_ids empty_registry [Some example_device]
     = Inr \<lparr>store = [example_session], devices = [0], ee = [Connected (Some 0)]\<rparr>
   \<and> checkRemoveDevice
         \<lparr>store = [example_session], devices = [0], ee = [Connected (Some 0)]\<rparr>
         (Some example_device)
     = \<lparr>store = [example_session\<lparr>isConnected := False, trace := [Emit EDisconnected]\<rparr>],
        devices = [],
        ee = [Connected (Some 0), Disconnected None]\<rparr>
   \<and> attach_all example_ids empty_registry [Some example_device, Some second_device]
     = Inr \<lparr>store = [example_session, example_session\<lparr>device := second_device\<rparr>],
            devices = [0, 1], ee = [Connected (Some 0), Connected (Some 1)]\<rparr>
   \<and> checkRemoveDevice
         \<lparr>store = [example_session, example_session\<lparr>device := second_device\<rparr>],
          devices = [0, 1], ee = [Connected (Some 0), Connected (Some 1)]\<rparr>
         (Some example_device)
     = \<lparr>store = [example_session\<lparr>isConnected := False, trace := [Emit EDisconnected]\<rparr>,
                 example_session\<lparr>device := second_device\<rparr>],
        devices = [1],
        ee = [Connected (Some 0), Connected (Some 1), Disconnected (Some 1)]\<rparr>"
  by (simp add: registry_defs PenDaq_onDisconnect_def uncaught_def emit_def act_def example_ids_def
      example_device_def second_device_def example_session_def)

text \<open>
  C7: the code does not do what the claim says for a device whose bus number is 0. The
  test \<open>dev1.busNumber && dev1.deviceAddress\<close> of \<open>matchDeviceAddresses\<close> takes
  the number 0 for a missing one, so such a device never matches a tracked entry: two
  attach notifications for it leave two tracked sessions and two \<open>connected\<close> events,
  and a detach notification removes neither.
\<close>

theorem bus0_device_tracked_twice:
  "accepted example_ids bus0_device
   \<and> attach_all example_ids empty_registry [Some bus0_device, Some bus0_device]
     = Inr \<lparr>store = [example_session\<lparr>device := bus0_device\<rparr>,
                     example_session\<lparr>device := bus0_device\<rparr>],
            devices = [0, 1], ee = [Connected (Some 0), Connected (Some 1)]\<rparr>
   \<and> checkRemoveDevice
         \<lparr>store = [example_session\<lparr>device := bus0_device\<rparr>,
                   example_session\<lparr>device := bus0_device\<rparr>],
          devices = [0, 1], ee = [Connected (Some 0), Connected (Some 1)]\<rparr>
         (Some bus0_device)
     = \<lparr>store = [example_session\<lparr>device := bus0_device\<rparr>,
                 example_session\<lparr>device := bus0_device\<rparr>],
        devices = [0, 1], ee = [Connected (Some 0), Connected (Some 1)]\<rparr>"
  by (simp add: registry_defs accepted_def example_ids_def bus0_device_def example_session_def)

text \<open>
  For devices whose bus number and device address are not 0 the registry does keep one
  session per address: in every sequence of attach notifications delivered to the registry
  as it is after loading, two notifications for such an address leave exactly one tracked
  session and one \<open>connected\<close> event for it, and the second changes nothing.
\<close>

lemma attach_same_address_twice:
  assumes "busNumber d1 \<noteq> 0" and "deviceAddress d1 \<noteq> 0"
    and "busNumber d2 = busNumber d1" and "deviceAddress d2 = deviceAddress d1"
    and "accepted ids d1" and "accepted ids d2"
  shows "\<exists>reg. attach_all ids empty_registry (pre @ [Some d1] @ mid @ [Some d2] @ post) = Inr reg
     \<and> length (tracked_at (busNumber d1) (deviceAddress d1) reg) = 1
     \<and> length (connected_at (busNumber d1) (deviceAddress d1) reg) = 1
     \<and> attach_all ids empty_registry (pre @ [Some d1] @ mid @ [Some d2])
         = attach_all ids empty_registry (pre @ [Some d1] @ mid)"
proof -
  let ?b = "busNumber d1" and ?a = "deviceAddress d1"
  have start: "length (tracked_at ?b ?a empty_registry) = length (connected_at ?b ?a empty_registry)"
    "length (tracked_at ?b ?a empty_registry) \<le> 1"
    by (simp_all add: counts_empty)
  have in1: "\<exists>d. Some d \<in> set (pre @ [Some d1] @ mid @ [Some d2] @ post) \<and> accepted ids d
      \<and> busNumber d = ?b \<and> deviceAddress d = ?a"
    using assms(5) by auto
  obtain reg where whole: "attach_all ids empty_registry (pre @ [Some d1] @ mid @ [Some d2] @ post)
        = Inr reg"
    and eq: "length (tracked_at ?b ?a reg) = length (connected_at ?b ?a reg)"
    and one: "length (tracked_at ?b ?a reg) = 1"
    using attach_all_counts [OF assms(1,2) handles_ok_empty start,
        of ids "pre @ [Some d1] @ mid @ [Some d2] @ post"] in1
    by auto
  have in2: "\<exists>d. Some d \<in> set (pre @ [Some d1] @ mid) \<and> accepted ids d
      \<and> busNumber d = ?b \<and> deviceAddress d = ?a"
    using assms(5) by auto
  obtain r where part: "attach_all ids empty_registry (pre @ [Some d1] @ mid) = Inr r"
    and tr: "length (tracked_at ?b ?a r) = 1"
    using attach_all_counts [OF assms(1,2) handles_ok_empty start, of ids "pre @ [Some d1] @ mid"]
      in2
    by auto
  have "tracked_at (busNumber d2) (deviceAddress d2) r \<noteq> []"
    using tr assms(3,4) by auto
  then have "checkNewDevice ids r (Some d2) = Inr r"
    using assms(1,2,3,4) by (intro checkNewDevice_tracked) simp_all
  then have "attach_all ids empty_registry ((pre @ [Some d1] @ mid) @ [Some d2]) = Inr r"
    by (simp only: attach_all_append [of ids empty_registry "pre @ [Some d1] @ mid"] part)
       simp
  then have ignored: "attach_all ids empty_registry (pre @ [Some d1] @ mid @ [Some d2])
         = attach_all ids empty_registry (pre @ [Some d1] @ mid)"
    using part by simp
  show ?thesis using whole eq one ignored by auto
qed

end
